theory Spec2Isabelle
  imports Complex_Main
begin

section \<open>JavaScript numbers\<close>

text \<open>
  The readings are computed in IEEE 754 binary64. A finite double is a real of the form
  \<open>m * 2 powi k\<close> with \<open>|m| < 2^53\<close> and \<open>k\<close> at least \<open>-1074\<close>; \<open>fl\<close> rounds a real to the nearest
  such number, a tie going to the even significand, as every arithmetic operation and
  every conversion of a decimal text does. The exponent has no upper limit here:
  overflow to \<^verbatim>\<open>Infinity\<close>, and \<^verbatim>\<open>NaN\<close>, are outside the model.
\<close>

definition rne :: "real \<Rightarrow> int" where
  "rne y = (let f = \<lfloor>y\<rfloor>; d = y - of_int f
            in if d < 1 / 2 then f else if 1 / 2 < d then f + 1 else if even f then f else f + 1)"

text \<open>The binary exponent of a positive real: \<open>2 powi (ilog2 x) \<le> x < 2 powi (ilog2 x + 1)\<close>.\<close>

function ilog2 :: "real \<Rightarrow> int" where
  "ilog2 x = (if x \<le> 0 then 0
              else if 2 \<le> x then ilog2 (x / 2) + 1
              else if x < 1 then ilog2 (x * 2) - 1
              else 0)"
  by pat_completeness auto
termination
proof (relation "measure (\<lambda>x. nat \<bar>\<lfloor>log 2 x\<rfloor>\<bar>)")
  show "wf (measure (\<lambda>x. nat \<bar>\<lfloor>log 2 x\<rfloor>\<bar>))" by simp
next
  fix x :: real
  assume a: "\<not> x \<le> 0" "2 \<le> x"
  have "log 2 (x / 2) = log 2 x - 1" using a by (simp add: log_divide)
  moreover have "1 \<le> log 2 x" using a by (simp add: le_log_iff)
  ultimately show "(x / 2, x) \<in> measure (\<lambda>x. nat \<bar>\<lfloor>log 2 x\<rfloor>\<bar>)"
    by simp
next
  fix x :: real
  assume a: "\<not> x \<le> 0" "\<not> 2 \<le> x" "x < 1"
  have "log 2 (x * 2) = log 2 x + 1" using a by (simp add: log_mult)
  moreover have "log 2 x < 0" using a by simp
  moreover from this have "\<lfloor>log 2 x\<rfloor> < 0" by (simp add: floor_less_iff)
  ultimately show "(x * 2, x) \<in> measure (\<lambda>x. nat \<bar>\<lfloor>log 2 x\<rfloor>\<bar>)"
    by (simp; linarith)
qed

declare ilog2.simps [simp del]

text \<open>The exponent of the binade of \<open>x\<close>, not below that of the subnormal numbers.\<close>

definition expo :: "real \<Rightarrow> int" where
  "expo x = max (ilog2 \<bar>x\<bar>) (- 1022)"

definition ulp :: "real \<Rightarrow> real" where
  "ulp x = 2 powi (expo x - 52)"

definition fl :: "real \<Rightarrow> real" where
  "fl x = of_int (rne (x / ulp x)) * ulp x"

text \<open>Half the distance between neighbouring subnormal doubles.\<close>

definition halfStep :: real where
  "halfStep = 2 powi (- 1075)"

typedef double = "{x::real. fl x = x}"
  morphisms val Abs_double
  by (rule exI [of _ 0]) (simp add: fl_def rne_def)

text \<open>
  \<open>D x\<close> is the double nearest to \<open>x\<close>: the value of a numeric literal or of a number in a
  JSON text. The operators round the exact result.
\<close>

definition D :: "real \<Rightarrow> double" where
  "D x = Abs_double (fl x)"

definition dadd :: "double \<Rightarrow> double \<Rightarrow> double" where
  "dadd a b = D (val a + val b)"

definition dsub :: "double \<Rightarrow> double \<Rightarrow> double" where
  "dsub a b = D (val a - val b)"

definition dmul :: "double \<Rightarrow> double \<Rightarrow> double" where
  "dmul a b = D (val a * val b)"

section \<open>Shared data contract (shared/types.ts, shared/schema.ts, shared/constants.ts)\<close>

text \<open>
  Temperature and pressure, the numbers the server computes with, are doubles. The other
  numbers (priority, interval) are only compared and passed on; they are reals. Strings
  are lists of characters.
\<close>

record IncidentReading =
  timestamp :: string
  temperature :: double
  pressure :: double

text \<open>\<^verbatim>\<open>assignedTo?: string | null\<close>: absent, \<^verbatim>\<open>null\<close>, or a string (possibly empty).\<close>

datatype assignee = Undefined | Null | Assigned string

record Incident =
  incidentId :: string
  siteId :: string
  assetId :: string
  alarmId :: string
  priority :: real
  createdAt :: string
  updatedAt :: "string option"
  assignedTo :: assignee
  stateId :: string
  escalationLevelId :: string
  incidentTypeIds :: "string list option"
  readings :: "IncidentReading list option"

record Named =
  entry_id :: string
  entry_name :: string

record Asset =
  asset_id :: string
  asset_siteId :: string
  displayName :: string
  model :: string
  regionName :: string

record Alarm =
  alarm_alarmId :: string
  code :: string
  description :: string
  legacyId :: "string option"

record Catalog =
  escalationLevels :: "Named list"
  incidentTypes :: "Named list"
  sites :: "Named list"
  assets :: "Asset list"
  alarms :: "Alarm list"

definition PROTOCOL_VERSION :: string where
  "PROTOCOL_VERSION = ''1''"

definition STATE_OPEN :: string where
  "STATE_OPEN = ''OPEN''"

definition STATE_CLOSED :: string where
  "STATE_CLOSED = ''CLOSED''"

text \<open>The members of \<^verbatim>\<open>ServerMessageSchema\<close> and \<^verbatim>\<open>ClientMessageSchema\<close>.\<close>

datatype ServerMessage =
    Init "string option" "Incident list option" "Catalog option"
  | IncidentAdded Incident
  | IncidentUpdated Incident
  | ReadingIntervalUpdated real
  | ErrorMessage "string option" "string option"

datatype ClientMessage =
    AddIncident Incident
  | UpdateIncident Incident
  | SetReadingInterval real

text \<open>
  What a received text frame turns out to be: \<^verbatim>\<open>JSON.parse\<close> throws, or the parsed value
  fails \<^verbatim>\<open>safeParse\<close> (this includes every object whose \<^verbatim>\<open>type\<close> is not one of the
  union's literals), or it is a message of the contract.
\<close>

datatype 'm frame = NotJson | SchemaMismatch | Parsed 'm

section \<open>Bucketing (features/incidents/logic/incidentFilters.ts)\<close>

datatype IncidentBucket = BucketNew | BucketActive | BucketCompleted

text \<open>JavaScript truthiness of \<^verbatim>\<open>incident.assignedTo\<close>: the empty string is falsy.\<close>

fun truthy_assignee :: "assignee \<Rightarrow> bool" where
  "truthy_assignee Undefined = False"
| "truthy_assignee Null = False"
| "truthy_assignee (Assigned s) = (s \<noteq> [])"

definition matchesFilter :: "string option \<Rightarrow> string list option \<Rightarrow> Incident \<Rightarrow> bool" where
  "matchesFilter escalationLevelId' incidentTypeIds' incident =
     (if (case escalationLevelId' of None \<Rightarrow> False
          | Some e \<Rightarrow> e \<noteq> [] \<and> escalationLevelId incident \<noteq> e) then False
      else (case incidentTypeIds' of
              None \<Rightarrow> True
            | Some wanted \<Rightarrow>
                if wanted \<noteq> [] then
                  (let incidentTypes' = (case incidentTypeIds incident of None \<Rightarrow> [] | Some ts \<Rightarrow> ts);
                       matchesIncidentType = list_ex (\<lambda>typeId. typeId \<in> set incidentTypes') wanted
                   in if \<not> matchesIncidentType then False else True)
                else True))"

definition inBucket :: "IncidentBucket \<Rightarrow> Incident \<Rightarrow> bool" where
  "inBucket type' incident =
     (if type' = BucketNew then stateId incident = STATE_OPEN \<and> \<not> truthy_assignee (assignedTo incident)
      else if type' = BucketActive then stateId incident = STATE_OPEN \<and> truthy_assignee (assignedTo incident)
      else stateId incident = STATE_CLOSED)"

definition getIncidentsByType ::
  "Incident list \<Rightarrow> IncidentBucket \<Rightarrow> string option \<Rightarrow> string list option \<Rightarrow> Incident list" where
  "getIncidentsByType incidents' type' escalationLevelId' incidentTypeIds' =
     filter (\<lambda>incident.
        if \<not> matchesFilter escalationLevelId' incidentTypeIds' incident then False
        else inBucket type' incident) incidents'"

section \<open>Client hook (features/incidents/hooks/useIncidentSocket.ts)\<close>

datatype IncidentAction =
    ActionInit "Incident list"
  | ActionAdd Incident
  | ActionUpdate Incident

fun incidentsReducer :: "Incident list \<Rightarrow> IncidentAction \<Rightarrow> Incident list" where
  "incidentsReducer state (ActionInit incidents') = incidents'"
| "incidentsReducer state (ActionAdd incident) = incident # state"
| "incidentsReducer state (ActionUpdate incident) =
     (let exists = list_ex (\<lambda>item. incidentId item = incidentId incident) state
      in if \<not> exists then incident # state
         else map (\<lambda>item. if incidentId item = incidentId incident then incident else item) state)"

datatype ConnectionStatus = Connected | Disconnected

datatype ReadyState = CONNECTING | OPEN | CLOSING | CLOSED

text \<open>
  The hook's React state and refs. \<open>socketRef\<close> holds the ready state of the socket it
  points to (\<open>None\<close> before the mount effect has run); \<open>intervalTimeoutRef\<close> tells whether
  the 1500 ms acknowledgement timer is armed.
\<close>

record ClientState =
  incidents :: "Incident list"
  catalog :: Catalog
  connectionStatus :: ConnectionStatus
  readingIntervalMs :: real
  lastError :: "string option"
  socketRef :: "ReadyState option"
  pendingIntervalRef :: "real option"
  intervalTimeoutRef :: bool
  suppressIntervalRequestRef :: bool

definition emptyCatalog :: Catalog where
  "emptyCatalog = \<lparr>escalationLevels = [], incidentTypes = [], sites = [], assets = [], alarms = []\<rparr>"

definition initialClient :: ClientState where
  "initialClient =
     \<lparr>incidents = [], catalog = emptyCatalog, connectionStatus = Disconnected,
      readingIntervalMs = 2000, lastError = None, socketRef = None,
      pendingIntervalRef = None, intervalTimeoutRef = False,
      suppressIntervalRequestRef = False\<rparr>"

definition socketOpen :: "ClientState \<Rightarrow> bool" where
  "socketOpen st = (socketRef st = Some OPEN)"

definition clearIntervalTimeout :: "ClientState \<Rightarrow> ClientState" where
  "clearIntervalTimeout st =
     (if intervalTimeoutRef st then st\<lparr>intervalTimeoutRef := False\<rparr> else st)"

text \<open>Each callback returns the new state and the messages it sent on the socket.\<close>

definition requestServerInterval :: "ClientState \<Rightarrow> real \<Rightarrow> ClientState \<times> ClientMessage list" where
  "requestServerInterval st nextInterval =
     (if socketOpen st then
        ((clearIntervalTimeout (st\<lparr>pendingIntervalRef := Some nextInterval\<rparr>))\<lparr>intervalTimeoutRef := True\<rparr>,
         [SetReadingInterval nextInterval])
      else (st, []))"

definition sendIncident :: "ClientState \<Rightarrow> Incident \<Rightarrow> ClientState \<times> ClientMessage list" where
  "sendIncident st incident =
     (if socketOpen st then (st, [AddIncident incident]) else (st, []))"

definition updateIncident :: "ClientState \<Rightarrow> Incident \<Rightarrow> ClientState \<times> ClientMessage list" where
  "updateIncident st incident =
     (let st' = st\<lparr>incidents := incidentsReducer (incidents st) (ActionUpdate incident)\<rparr>
      in if socketOpen st' then (st', [UpdateIncident incident]) else (st', []))"

text \<open>
  \<open>handleMessage\<close> of \<^verbatim>\<open>hooks/useIncidentSocket.ts\<close>. The handler is an effect event: it reads
  the refs as they are, but \<^verbatim>\<open>readingIntervalMs\<close> as of the last committed render, while
  the state setters it calls take effect at the next render. \<open>handleMessageAt rendered\<close>
  is the handler while the last committed render showed the interval \<open>rendered\<close>; the
  fields of the state are the refs and the values the next render will show. The branches
  on \<^verbatim>\<open>payload.type\<close> are exclusive. The schema makes \<^verbatim>\<open>incident\<close> a required object, so the
  \<^verbatim>\<open>!incident\<close> guards never fire, and it makes all five catalog lists required, so the spread
  over \<open>emptyCatalog\<close> is the received catalog.
\<close>

fun handleMessageAt :: "real \<Rightarrow> ClientState \<Rightarrow> ServerMessage frame \<Rightarrow> ClientState" where
  "handleMessageAt rendered st NotJson = st"
| "handleMessageAt rendered st SchemaMismatch =
     st\<lparr>lastError := Some ''Received an unexpected message shape from the server.''\<rparr>"
| "handleMessageAt rendered st (Parsed (Init protocolVersion incidents' catalog')) =
     (let st1 = (case protocolVersion of
                   None \<Rightarrow> st
                 | Some v \<Rightarrow>
                     if v \<noteq> [] \<and> v \<noteq> PROTOCOL_VERSION
                     then st\<lparr>lastError :=
                            Some (''Protocol mismatch: expected '' @ PROTOCOL_VERSION @ '', got '' @ v @ ''.'')\<rparr>
                     else st);
          st2 = (case incidents' of
                   None \<Rightarrow> st1
                 | Some xs \<Rightarrow> st1\<lparr>incidents := incidentsReducer (incidents st1) (ActionInit xs)\<rparr>)
      in (case catalog' of None \<Rightarrow> st2 | Some c \<Rightarrow> st2\<lparr>catalog := c\<rparr>))"
| "handleMessageAt rendered st (Parsed (IncidentAdded incident)) =
     st\<lparr>incidents := incidentsReducer (incidents st) (ActionAdd incident)\<rparr>"
| "handleMessageAt rendered st (Parsed (IncidentUpdated incident)) =
     st\<lparr>incidents := incidentsReducer (incidents st) (ActionUpdate incident)\<rparr>"
| "handleMessageAt rendered st (Parsed (ReadingIntervalUpdated intervalMs)) =
     (let st1 = (clearIntervalTimeout st)\<lparr>pendingIntervalRef := None\<rparr>;
          st2 = (if intervalMs \<noteq> rendered
                 then st1\<lparr>suppressIntervalRequestRef := True, readingIntervalMs := intervalMs\<rparr>
                 else st1)
      in st2\<lparr>lastError := None\<rparr>)"
| "handleMessageAt rendered st (Parsed (ErrorMessage code' message)) =
     st\<lparr>lastError := Some (case message of None \<Rightarrow> ''Unexpected server error.'' | Some m \<Rightarrow> m)\<rparr>"

text \<open>One frame handled on the state of a committed render.\<close>

definition handleMessage :: "ClientState \<Rightarrow> ServerMessage frame \<Rightarrow> ClientState" where
  "handleMessage st fr = handleMessageAt (readingIntervalMs st) st fr"

text \<open>
  The repository carries a second copy of the hook, with observability callbacks and an
  acknowledgement check against the pending request. Its \<open>handleMessage\<close> also returns
  the texts handed to \<^verbatim>\<open>onError\<close>. \<open>numberToString\<close> stands for JavaScript's conversion
  of a number inside a template literal.
\<close>

fun handleMessageAt_v2 ::
  "(real \<Rightarrow> string) \<Rightarrow> real \<Rightarrow> ClientState \<Rightarrow> ServerMessage frame \<Rightarrow> ClientState \<times> string list" where
  "handleMessageAt_v2 numberToString rendered st NotJson = (st, [])"
| "handleMessageAt_v2 numberToString rendered st SchemaMismatch =
     (let message = ''Received an unexpected message shape from the server.''
      in (st\<lparr>lastError := Some message\<rparr>, [message]))"
| "handleMessageAt_v2 numberToString rendered st (Parsed (Init protocolVersion incidents' catalog')) =
     (let (st1, notes) =
            (case protocolVersion of
               None \<Rightarrow> (st, [])
             | Some v \<Rightarrow>
                 if v \<noteq> [] \<and> v \<noteq> PROTOCOL_VERSION
                 then (let message = ''Protocol mismatch: expected '' @ PROTOCOL_VERSION @ '', got '' @ v @ ''.''
                       in (st\<lparr>lastError := Some message\<rparr>, [message]))
                 else (st, []));
          st2 = (case incidents' of
                   None \<Rightarrow> st1
                 | Some xs \<Rightarrow> st1\<lparr>incidents := incidentsReducer (incidents st1) (ActionInit xs)\<rparr>)
      in ((case catalog' of None \<Rightarrow> st2 | Some c \<Rightarrow> st2\<lparr>catalog := c\<rparr>), notes))"
| "handleMessageAt_v2 numberToString rendered st (Parsed (IncidentAdded incident)) =
     (st\<lparr>incidents := incidentsReducer (incidents st) (ActionAdd incident)\<rparr>, [])"
| "handleMessageAt_v2 numberToString rendered st (Parsed (IncidentUpdated incident)) =
     (st\<lparr>incidents := incidentsReducer (incidents st) (ActionUpdate incident)\<rparr>, [])"
| "handleMessageAt_v2 numberToString rendered st (Parsed (ReadingIntervalUpdated intervalMs)) =
     (let pendingInterval = pendingIntervalRef st;
          st1 = (clearIntervalTimeout st)\<lparr>pendingIntervalRef := None\<rparr>
      in (case pendingInterval of
            None \<Rightarrow>
              ((if intervalMs \<noteq> rendered
                then st1\<lparr>suppressIntervalRequestRef := True, readingIntervalMs := intervalMs\<rparr>
                else st1)\<lparr>lastError := None\<rparr>, [])
          | Some pending \<Rightarrow>
              if intervalMs \<noteq> pending then
                (let message = ''Server interval is '' @ numberToString intervalMs @ ''ms, expected ''
                                 @ numberToString pending @ ''ms.''
                 in (st1\<lparr>suppressIntervalRequestRef := True, readingIntervalMs := intervalMs,
                         lastError := Some message\<rparr>, [message]))
              else (st1\<lparr>lastError := None\<rparr>, [])))"
| "handleMessageAt_v2 numberToString rendered st (Parsed (ErrorMessage code' message)) =
     (let message' = (case message of None \<Rightarrow> ''Unexpected server error.'' | Some m \<Rightarrow> m)
      in (st\<lparr>lastError := Some message'\<rparr>, [message']))"

definition handleMessage_v2 ::
  "(real \<Rightarrow> string) \<Rightarrow> ClientState \<Rightarrow> ServerMessage frame \<Rightarrow> ClientState \<times> string list" where
  "handleMessage_v2 numberToString st fr = handleMessageAt_v2 numberToString (readingIntervalMs st) st fr"

text \<open>
  The effect on \<^verbatim>\<open>[readingIntervalMs]\<close> runs after a render in which the interval differs
  from that of the render before. \<open>deliverFrames st frs\<close>: \<open>st\<close> is the state of a committed
  render, the frames \<open>frs\<close> arrive one after the other before React renders again (each
  handled against the interval \<open>st\<close> shows), then the render commits and the effect runs.
  \<open>deliver\<close> is the case of one frame.
\<close>

definition readingIntervalEffect :: "ClientState \<Rightarrow> ClientState \<times> ClientMessage list" where
  "readingIntervalEffect st =
     (if suppressIntervalRequestRef st then (st\<lparr>suppressIntervalRequestRef := False\<rparr>, [])
      else requestServerInterval st (readingIntervalMs st))"

definition deliverFrames ::
  "ClientState \<Rightarrow> ServerMessage frame list \<Rightarrow> ClientState \<times> ClientMessage list" where
  "deliverFrames st frs =
     (let st' = foldl (handleMessageAt (readingIntervalMs st)) st frs
      in if readingIntervalMs st' \<noteq> readingIntervalMs st then readingIntervalEffect st' else (st', []))"

definition deliver :: "ClientState \<Rightarrow> ServerMessage frame \<Rightarrow> ClientState \<times> ClientMessage list" where
  "deliver st fr = deliverFrames st [fr]"

text \<open>
  The mount effect creates the socket. Its \<^verbatim>\<open>open\<close> listener closes over the first render,
  so the interval it requests is the initial one. \<open>setReadingIntervalMs\<close> is the state
  setter handed to the user interface, followed by the effect on the changed interval.
\<close>

definition mount :: "ClientState \<Rightarrow> ClientState" where
  "mount st = st\<lparr>socketRef := Some CONNECTING\<rparr>"

definition onOpen :: "ClientState \<Rightarrow> ClientState \<times> ClientMessage list" where
  "onOpen st =
     requestServerInterval
       (st\<lparr>socketRef := Some OPEN, connectionStatus := Connected, lastError := None\<rparr>)
       (readingIntervalMs initialClient)"

definition onClose :: "ClientState \<Rightarrow> ClientState" where
  "onClose st = st\<lparr>socketRef := Some CLOSED, connectionStatus := Disconnected\<rparr>"

definition setReadingIntervalMs :: "ClientState \<Rightarrow> real \<Rightarrow> ClientState \<times> ClientMessage list" where
  "setReadingIntervalMs st v =
     (if v \<noteq> readingIntervalMs st then readingIntervalEffect (st\<lparr>readingIntervalMs := v\<rparr>)
      else (st, []))"

section \<open>Server (server/server.js)\<close>

definition MAX_READINGS :: nat where
  "MAX_READINGS = 24"

definition DEFAULT_READING_INTERVAL_MS :: real where
  "DEFAULT_READING_INTERVAL_MS = 2000"

definition MIN_READING_INTERVAL_MS :: real where
  "MIN_READING_INTERVAL_MS = 250"

text \<open>
  \<^verbatim>\<open>/^[a-z0-9-]{3,32}$/i\<close>: three to thirty-two characters, each an ASCII letter of either
  case, a digit or a hyphen. Without the \<^verbatim>\<open>u\<close> flag no character outside ASCII matches an
  ASCII letter, and \<^verbatim>\<open>$\<close> matches at the end of the input only.
\<close>

definition idChar :: "char \<Rightarrow> bool" where
  "idChar c = (c \<in> set (''abcdefghijklmnopqrstuvwxyz'' @ ''ABCDEFGHIJKLMNOPQRSTUVWXYZ''
                             @ ''0123456789'' @ ''-''))"

definition INCIDENT_ID_PATTERN_test :: "string \<Rightarrow> bool" where
  "INCIDENT_ID_PATTERN_test s = (3 \<le> length s \<and> length s \<le> 32 \<and> list_all idChar s)"

text \<open>
  The outcomes of the calls of \<^verbatim>\<open>Math.random()\<close> still to come, in order; each call takes
  the first and leaves the rest.
\<close>

type_synonym rng = "nat \<Rightarrow> double"

definition Math_random :: "rng \<Rightarrow> double \<times> rng" where
  "Math_random g = (g 0, \<lambda>n. g (Suc n))"

text \<open>
  \<^verbatim>\<open>x.toFixed(d)\<close> prints the multiple of \<open>10\<^sup>-\<^sup>d\<close> nearest to the exact value of the double
  \<open>x\<close>, a tie going away from zero (the sign is split off first and the larger candidate
  is taken); \<open>toFixedDecimal\<close> is the number printed. Above \<open>10\<^sup>2\<^sup>1\<close> the method prints \<open>x\<close>
  itself, which is an integer there, so the formula gives the same number. \<^verbatim>\<open>Number\<close>
  then reads the text back as the nearest double.
\<close>

definition toFixedDecimal :: "nat \<Rightarrow> real \<Rightarrow> real" where
  "toFixedDecimal d x =
     (if x < 0 then - (of_int \<lfloor>(- x) * 10 ^ d + 1 / 2\<rfloor> / 10 ^ d)
      else of_int \<lfloor>x * 10 ^ d + 1 / 2\<rfloor> / 10 ^ d)"

definition toFixed :: "nat \<Rightarrow> double \<Rightarrow> double" where
  "toFixed d x = D (toFixedDecimal d (val x))"

text \<open>\<open>now\<close> is the text of \<^verbatim>\<open>new Date().toISOString()\<close> at the call.\<close>

definition createReading :: "string \<Rightarrow> IncidentReading option \<Rightarrow> rng \<Rightarrow> IncidentReading \<times> rng" where
  "createReading now previous g =
     (let (temperatureBase, g1) =
            (case previous of
               Some p \<Rightarrow> (temperature p, g)
             | None \<Rightarrow> (let (r, g') = Math_random g in (dadd (D 68) (dmul r (D 12)), g')));
          (pressureBase, g2) =
            (case previous of
               Some p \<Rightarrow> (pressure p, g1)
             | None \<Rightarrow> (let (r, g') = Math_random g1 in (dadd (D 18) (dmul r (D 6)), g')));
          (r3, g3) = Math_random g2;
          temperature' = toFixed 1 (dadd temperatureBase (dsub (dmul r3 (D 4)) (D 2)));
          (r4, g4) = Math_random g3;
          pressure' = toFixed 2 (dadd pressureBase (dsub (dmul r4 (D 2)) (D 1)))
      in (\<lparr>timestamp = now, temperature = temperature', pressure = pressure'\<rparr>, g4))"

text \<open>\<^verbatim>\<open>readings[readings.length - 1]\<close>: \<^verbatim>\<open>undefined\<close> on the empty array.\<close>

definition lastReading :: "IncidentReading list \<Rightarrow> IncidentReading option" where
  "lastReading rs = (if rs = [] then None else Some (last rs))"

text \<open>\<^verbatim>\<open>incident.readings ?? []\<close>\<close>

definition readingsOf :: "Incident \<Rightarrow> IncidentReading list" where
  "readingsOf incident = (case readings incident of None \<Rightarrow> [] | Some rs \<Rightarrow> rs)"

text \<open>\<^verbatim>\<open>xs.slice(-n)\<close>: the last \<open>n\<close> elements, all of them when there are fewer.\<close>

definition sliceLast :: "nat \<Rightarrow> 'a list \<Rightarrow> 'a list" where
  "sliceLast n xs = drop (length xs - n) xs"

text \<open>The seed: \<open>ago\<close> renders the instant so many milliseconds before start-up.\<close>

definition seedIncidents :: "(int \<Rightarrow> string) \<Rightarrow> Incident list" where
  "seedIncidents ago =
     [\<lparr>incidentId = ''inc-1001'', siteId = ''site-1'', assetId = ''asset-1'', alarmId = ''alarm-100'',
       priority = 1, createdAt = ago (1000 * 60 * 12), updatedAt = None, assignedTo = Undefined,
       stateId = ''OPEN'', escalationLevelId = ''esc-1'',
       incidentTypeIds = Some [''type-electrical''], readings = None\<rparr>,
      \<lparr>incidentId = ''inc-1002'', siteId = ''site-2'', assetId = ''asset-3'', alarmId = ''alarm-310'',
       priority = 2, createdAt = ago (1000 * 60 * 42), updatedAt = None,
       assignedTo = Assigned ''user-2'', stateId = ''OPEN'', escalationLevelId = ''esc-1'',
       incidentTypeIds = Some [''type-cooling''], readings = None\<rparr>,
      \<lparr>incidentId = ''inc-1003'', siteId = ''site-2'', assetId = ''asset-4'', alarmId = ''alarm-420'',
       priority = 3, createdAt = ago (1000 * 60 * 90), updatedAt = None,
       assignedTo = Assigned ''user-1'', stateId = ''OPEN'', escalationLevelId = ''esc-2'',
       incidentTypeIds = Some [''type-controls''], readings = None\<rparr>,
      \<lparr>incidentId = ''inc-1004'', siteId = ''site-1'', assetId = ''asset-2'', alarmId = ''alarm-220'',
       priority = 1, createdAt = ago (1000 * 60 * 180), updatedAt = Some (ago (1000 * 60 * 30)),
       assignedTo = Assigned ''user-1'', stateId = ''CLOSED'', escalationLevelId = ''esc-2'',
       incidentTypeIds = Some [''type-facilities''], readings = None\<rparr>]"

text \<open>The inner loop of \<open>seedReadings\<close>, with the number of iterations still to run.\<close>

fun seedLoop :: "nat \<Rightarrow> string \<Rightarrow> IncidentReading list \<Rightarrow> rng \<Rightarrow> IncidentReading list \<times> rng" where
  "seedLoop 0 now readings' g = (readings', g)"
| "seedLoop (Suc k) now readings' g =
     (let previous = lastReading readings';
          (r, g') = createReading now previous g
      in seedLoop k now (readings' @ [r]) g')"

fun seedReadings :: "string \<Rightarrow> Incident list \<Rightarrow> rng \<Rightarrow> Incident list \<times> rng" where
  "seedReadings now [] g = ([], g)"
| "seedReadings now (incident # rest) g =
     (let (readings', g') = seedLoop MAX_READINGS now [] g;
          (rest', g'') = seedReadings now rest g'
      in (incident\<lparr>readings := Some readings'\<rparr> # rest', g''))"

text \<open>
  The module state: the incident list, the tick period and the random draws to come. The
  timer handle is left out: every interval change restarts the timer.
\<close>

record ServerState =
  serverIncidents :: "Incident list"
  serverReadingIntervalMs :: real
  random :: rng

definition startup :: "(int \<Rightarrow> string) \<Rightarrow> string \<Rightarrow> rng \<Rightarrow> ServerState" where
  "startup ago now g =
     (let (seeded, g') = seedReadings now (seedIncidents ago) g
      in \<lparr>serverIncidents = seeded, serverReadingIntervalMs = DEFAULT_READING_INTERVAL_MS,
          random = g'\<rparr>)"

text \<open>What a handler sends: to the socket the message came from, or to every open socket.\<close>

datatype Outgoing = Reply ServerMessage | Broadcast ServerMessage

definition sendError :: "string \<Rightarrow> string \<Rightarrow> Outgoing" where
  "sendError code' message = Reply (ErrorMessage (Some code') (Some message))"

fun findIndex :: "('a \<Rightarrow> bool) \<Rightarrow> 'a list \<Rightarrow> nat option" where
  "findIndex P [] = None"
| "findIndex P (x # xs) =
     (if P x then Some 0 else (case findIndex P xs of None \<Rightarrow> None | Some i \<Rightarrow> Some (Suc i)))"

text \<open>The \<^verbatim>\<open>message\<close> handler of a socket; the three tests on \<^verbatim>\<open>parsed.data.type\<close> are exclusive.\<close>

fun onMessage :: "string \<Rightarrow> ServerState \<Rightarrow> ClientMessage frame \<Rightarrow> ServerState \<times> Outgoing list" where
  "onMessage now st NotJson = (st, [])"
| "onMessage now st SchemaMismatch =
     (st, [sendError ''INVALID_MESSAGE'' ''Message did not match the expected schema.''])"
| "onMessage now st (Parsed (AddIncident incident)) =
     (if \<not> INCIDENT_ID_PATTERN_test (incidentId incident) then
        (st, [sendError ''INVALID_INCIDENT_ID''
                ''Incident ID must be 3-32 characters: letters, numbers, or hyphens.''])
      else
        (let previousReading = (case readings incident of None \<Rightarrow> None | Some rs \<Rightarrow> lastReading rs);
             (incident', g') =
               (if readings incident = None \<or> readings incident = Some [] then
                  (let (r, g') = createReading now previousReading (random st)
                   in (incident\<lparr>readings := Some [r]\<rparr>, g'))
                else (incident, random st))
         in (st\<lparr>serverIncidents := incident' # serverIncidents st, random := g'\<rparr>,
             [Broadcast (IncidentAdded incident')])))"
| "onMessage now st (Parsed (UpdateIncident incident)) =
     ((case findIndex (\<lambda>item. incidentId item = incidentId incident) (serverIncidents st) of
         Some index \<Rightarrow> st\<lparr>serverIncidents := (serverIncidents st)[index := incident]\<rparr>
       | None \<Rightarrow> st\<lparr>serverIncidents := incident # serverIncidents st\<rparr>),
      [Broadcast (IncidentUpdated incident)])"
| "onMessage now st (Parsed (SetReadingInterval intervalMs)) =
     (let nextInterval = max MIN_READING_INTERVAL_MS intervalMs
      in (st\<lparr>serverReadingIntervalMs := nextInterval\<rparr>,
          [Broadcast (ReadingIntervalUpdated nextInterval)]))"

text \<open>The body of the interval callback: one pass over the incidents, in order.\<close>

fun advanceReadings :: "string \<Rightarrow> Incident list \<Rightarrow> rng \<Rightarrow> Incident list \<times> Outgoing list \<times> rng" where
  "advanceReadings now [] g = ([], [], g)"
| "advanceReadings now (incident # rest) g =
     (let readings' = readingsOf incident;
          previous = lastReading readings';
          (nextReading, g') = createReading now previous g;
          nextReadings = sliceLast MAX_READINGS (readings' @ [nextReading]);
          incident' = incident\<lparr>readings := Some nextReadings\<rparr>;
          (rest', out, g'') = advanceReadings now rest g'
      in (incident' # rest', Broadcast (IncidentUpdated incident') # out, g''))"

definition tick :: "string \<Rightarrow> ServerState \<Rightarrow> ServerState \<times> Outgoing list" where
  "tick now st =
     (let (incidents', out, g') = advanceReadings now (serverIncidents st) (random st)
      in (st\<lparr>serverIncidents := incidents', random := g'\<rparr>, out))"

text \<open>The server's event loop: timer firings and received frames, one at a time.\<close>

datatype ServerEvent = Tick string | Message string "ClientMessage frame"

fun step :: "ServerState \<Rightarrow> ServerEvent \<Rightarrow> ServerState" where
  "step st (Tick now) = fst (tick now st)"
| "step st (Message now fr) = fst (onMessage now st fr)"

definition run :: "ServerState \<Rightarrow> ServerEvent list \<Rightarrow> ServerState" where
  "run st evs = foldl step st evs"

definition storeIds :: "ServerState \<Rightarrow> string list" where
  "storeIds st = map incidentId (serverIncidents st)"

section \<open>Properties of runs\<close>

text \<open>Every incident of the store holds at most \<open>MAX_READINGS\<close> readings.\<close>

definition historyBounded :: "ServerState \<Rightarrow> bool" where
  "historyBounded st =
     list_all (\<lambda>incident. length (readingsOf incident) \<le> MAX_READINGS) (serverIncidents st)"

text \<open>An \<open>addIncident\<close> that passes the pattern carries an id the store does not hold yet.\<close>

fun addIsFresh :: "ServerState \<Rightarrow> ServerEvent \<Rightarrow> bool" where
  "addIsFresh st (Message now (Parsed (AddIncident incident))) =
     (INCIDENT_ID_PATTERN_test (incidentId incident) \<longrightarrow> incidentId incident \<notin> set (storeIds st))"
| "addIsFresh st ev = True"

fun addsFresh :: "ServerState \<Rightarrow> ServerEvent list \<Rightarrow> bool" where
  "addsFresh st [] = True"
| "addsFresh st (ev # evs) = (addIsFresh st ev \<and> addsFresh (step st ev) evs)"

text \<open>
  The number of random draws the tick takes for one incident (four when it has no reading
  yet, two otherwise) and for the first \<open>i\<close> incidents of a list.
\<close>

definition drawsUsed :: "Incident \<Rightarrow> nat" where
  "drawsUsed incident = (if readingsOf incident = [] then 4 else 2)"

definition drawsBefore :: "Incident list \<Rightarrow> nat \<Rightarrow> nat" where
  "drawsBefore xs i = sum_list (map drawsUsed (take i xs))"

text \<open>The incident a message carries holds at most \<open>MAX_READINGS\<close> readings.\<close>

fun carriesBounded :: "ServerEvent \<Rightarrow> bool" where
  "carriesBounded (Message now (Parsed (AddIncident incident))) =
     (length (readingsOf incident) \<le> MAX_READINGS)"
| "carriesBounded (Message now (Parsed (UpdateIncident incident))) =
     (length (readingsOf incident) \<le> MAX_READINGS)"
| "carriesBounded ev = True"

section \<open>Sample inputs\<close>

text \<open>Sample data, with the defaults of \<open>buildIncident\<close> in the unit test of the bucketing.\<close>

definition buildIncident :: "string \<Rightarrow> string \<Rightarrow> assignee \<Rightarrow> Incident" where
  "buildIncident incidentId' stateId' assignedTo' =
     \<lparr>incidentId = incidentId', siteId = ''site-1'', assetId = ''asset-1'', alarmId = ''alarm-1'',
      priority = 1, createdAt = ''2026-01-01T00:00:00.000Z'', updatedAt = None,
      assignedTo = assignedTo', stateId = stateId', escalationLevelId = ''esc-1'',
      incidentTypeIds = None, readings = None\<rparr>"

definition t0 :: string where
  "t0 = ''2026-01-01T00:00:00.000Z''"

definition sampleAgo :: "int \<Rightarrow> string" where
  "sampleAgo ms =
     (if ms = 1000 * 60 * 12 then ''2025-12-31T23:48:00.000Z''
      else if ms = 1000 * 60 * 30 then ''2025-12-31T23:30:00.000Z''
      else if ms = 1000 * 60 * 42 then ''2025-12-31T23:18:00.000Z''
      else if ms = 1000 * 60 * 90 then ''2025-12-31T22:30:00.000Z''
      else if ms = 1000 * 60 * 180 then ''2025-12-31T21:00:00.000Z''
      else t0)"

text \<open>Every call of \<^verbatim>\<open>Math.random()\<close> returns 0, the least value it can return.\<close>

definition zeroDraws :: rng where
  "zeroDraws n = D 0"

definition seeded :: ServerState where
  "seeded = startup sampleAgo t0 zeroDraws"

definition sampleReading :: IncidentReading where
  "sampleReading = \<lparr>timestamp = t0, temperature = D (141 / 2), pressure = D (81 / 4)\<rparr>"

text \<open>A reading a client can send: temperature 0.03125 and pressure 0.00390625.\<close>

definition offGridReading :: IncidentReading where
  "offGridReading = \<lparr>timestamp = t0, temperature = D (1 / 32), pressure = D (1 / 256)\<rparr>"

definition duplicateIncident :: Incident where
  "duplicateIncident = buildIncident ''inc-1001'' ''OPEN'' Undefined"

definition freshIncident :: Incident where
  "freshIncident = buildIncident ''test-incident'' ''OPEN'' Undefined"

definition shortIdIncident :: Incident where
  "shortIdIncident = buildIncident ''a'' ''OPEN'' Undefined"

definition longIncident :: Incident where
  "longIncident =
     (buildIncident ''inc-1001'' ''OPEN'' Undefined)\<lparr>readings := Some (replicate 25 sampleReading)\<rparr>"

definition freshEvents :: "ServerEvent list" where
  "freshEvents = [Message t0 (Parsed (AddIncident freshIncident)),
                  Message t0 (Parsed (UpdateIncident duplicateIncident))]"

definition boundedEvents :: "ServerEvent list" where
  "boundedEvents = [Message t0 (Parsed (AddIncident freshIncident)), Tick t0]"

definition carryingIncident :: Incident where
  "carryingIncident =
     (buildIncident ''inc-2000'' ''OPEN'' Undefined)\<lparr>readings := Some [offGridReading, sampleReading]\<rparr>"

definition replacingIncident :: Incident where
  "replacingIncident =
     (buildIncident ''inc-1002'' ''CLOSED'' Undefined)\<lparr>readings := Some [sampleReading]\<rparr>"

definition newIncident :: Incident where
  "newIncident = buildIncident ''new-1'' ''OPEN'' Undefined"

definition activeIncident :: Incident where
  "activeIncident = buildIncident ''active-1'' ''OPEN'' (Assigned ''user-1'')"

definition completedIncident :: Incident where
  "completedIncident = buildIncident ''completed-1'' ''CLOSED'' Undefined"

definition blankAssigneeIncident :: Incident where
  "blankAssigneeIncident = buildIncident ''blank-1'' ''OPEN'' (Assigned [])"

definition reassignedIncident :: Incident where
  "reassignedIncident = buildIncident ''active-1'' ''CLOSED'' (Assigned ''user-2'')"

text \<open>A client with two incidents in its list and a closed socket.\<close>

definition offlineClient :: ClientState where
  "offlineClient = (onClose initialClient)\<lparr>incidents := [newIncident, activeIncident]\<rparr>"

text \<open>
  A client whose socket has opened (the initial interval 2000 was requested) and whose
  user then picked 1000: the request for 1000 is pending.
\<close>

definition awaitingAck :: ClientState where
  "awaitingAck = fst (setReadingIntervalMs (fst (onOpen (mount initialClient))) 1000)"

section \<open>Rounding to doubles\<close>

lemma ilog2_bounds:
  "0 < x \<Longrightarrow> 2 powi (ilog2 x) \<le> x \<and> x < 2 powi (ilog2 x + 1)"
proof (induction x rule: ilog2.induct)
  case (1 x)
  show ?case
  proof (cases "2 \<le> x")
    case True
    with 1 have ih: "2 powi (ilog2 (x / 2)) \<le> x / 2 \<and> x / 2 < 2 powi (ilog2 (x / 2) + 1)"
      by simp
    have e: "ilog2 x = ilog2 (x / 2) + 1" using True 1 by (simp add: ilog2.simps)
    have "(2::real) powi (ilog2 (x / 2) + 1) = 2 powi (ilog2 (x / 2)) * 2"
      by (simp add: power_int_add)
    moreover have "(2::real) powi (ilog2 (x / 2) + 1 + 1) = 2 powi (ilog2 (x / 2) + 1) * 2"
      by (simp add: power_int_add)
    ultimately show ?thesis using ih unfolding e by linarith
  next
    case False
    show ?thesis
    proof (cases "x < 1")
      case True
      with False 1 have ih: "2 powi (ilog2 (x * 2)) \<le> x * 2 \<and> x * 2 < 2 powi (ilog2 (x * 2) + 1)"
        by simp
      have e: "ilog2 x = ilog2 (x * 2) - 1" using True False 1 by (simp add: ilog2.simps)
      have "(2::real) powi (ilog2 (x * 2)) = 2 powi (ilog2 (x * 2) - 1) * 2"
        by (simp add: power_int_diff)
      moreover have "(2::real) powi (ilog2 (x * 2) + 1) = 2 powi (ilog2 (x * 2) - 1 + 1) * 2"
        by (simp add: power_int_add)
      ultimately show ?thesis using ih unfolding e by linarith
    next
      case b: False
      with False 1 have "ilog2 x = 0" by (simp add: ilog2.simps)
      with False b show ?thesis by simp
    qed
  qed
qed

lemma pow2_less_imp_less:
  fixes a b :: int
  assumes "(2::real) powi a < 2 powi b"
  shows "a < b"
proof (rule ccontr)
  assume "\<not> a < b"
  then have "b \<le> a" by simp
  then have "(2::real) powi b \<le> 2 powi a" by (intro power_int_increasing) simp_all
  with assms show False by simp
qed

lemma ilog2_unique:
  assumes "2 powi k \<le> x" and "x < 2 powi (k + 1)"
  shows "ilog2 x = k"
proof -
  have pos: "0 < x" using assms(1) by (rule less_le_trans [rotated]) simp
  from ilog2_bounds [OF pos]
  have b: "2 powi (ilog2 x) \<le> x" "x < 2 powi (ilog2 x + 1)" by simp_all
  have "(2::real) powi k < 2 powi (ilog2 x + 1)" using assms(1) b(2) by linarith
  then have "k < ilog2 x + 1" by (rule pow2_less_imp_less)
  moreover have "(2::real) powi (ilog2 x) < 2 powi (k + 1)" using assms(2) b(1) by linarith
  then have "ilog2 x < k + 1" by (rule pow2_less_imp_less)
  ultimately show ?thesis by simp
qed

lemma ilog2_le:
  assumes "0 < x" and "x < 2 powi (k + 1)"
  shows "ilog2 x \<le> k"
proof -
  from ilog2_bounds [OF assms(1)] have "2 powi (ilog2 x) \<le> x" by simp
  with assms(2) have "(2::real) powi (ilog2 x) < 2 powi (k + 1)" by linarith
  then have "ilog2 x < k + 1" by (rule pow2_less_imp_less)
  then show ?thesis by simp
qed

lemma rne_near: "\<bar>of_int (rne z) - z\<bar> \<le> 1 / 2"
  unfolding rne_def Let_def by (auto split: if_splits; linarith)

lemma rne_of_int [simp]: "rne (of_int m) = m"
  by (simp add: rne_def)

lemma rne_le: "z \<le> of_int m \<Longrightarrow> rne z \<le> m"
proof -
  assume a: "z \<le> of_int m"
  show ?thesis
  proof (cases "z = of_int m")
    case True
    then show ?thesis by simp
  next
    case False
    with a have "z < of_int m" by simp
    then have "\<lfloor>z\<rfloor> < m" by (simp add: floor_less_iff)
    then show ?thesis unfolding rne_def Let_def by (auto split: if_splits)
  qed
qed

lemma rne_ge: "of_int m \<le> z \<Longrightarrow> m \<le> rne z"
proof -
  assume "of_int m \<le> z"
  then have "m \<le> \<lfloor>z\<rfloor>" by (simp add: le_floor_iff)
  then show ?thesis unfolding rne_def Let_def by (auto split: if_splits)
qed

lemma ulp_pos [simp]: "0 < ulp x"
  by (simp add: ulp_def)

lemma ulp_nonneg [simp]: "0 \<le> ulp x"
  by (simp add: ulp_def)

lemma ulp_nonzero [simp]: "ulp x \<noteq> 0"
  by (simp add: ulp_def)

lemma abs_ulp [simp]: "\<bar>ulp x\<bar> = ulp x"
  by (simp add: ulp_def)

lemma rne_zero [simp]: "rne 0 = 0"
  by (simp add: rne_def)

lemma pow2_succ: "(2::real) powi (k + 1) = 2 * 2 powi k"
  by (simp add: power_int_add)

lemma fl_zero [simp]: "fl 0 = 0"
  by (simp add: fl_def)

lemma fl_at_scale:
  assumes "x / ulp x = of_int n"
  shows "fl x = x"
proof -
  have "fl x = of_int n * ulp x" by (simp add: fl_def assms)
  also have "\<dots> = x / ulp x * ulp x" by (simp add: assms)
  also have "\<dots> = x" by simp
  finally show ?thesis .
qed

lemma pow2_ratio_int:
  fixes a b :: int
  assumes "b \<le> a"
  shows "(2::real) powi a / 2 powi b = of_int (2 ^ nat (a - b))"
proof -
  have "(2::real) powi a / 2 powi b = 2 powi (a - b)" by (simp add: power_int_diff)
  also have "\<dots> = 2 ^ nat (a - b)" using assms by (simp add: power_int_def)
  finally show ?thesis by simp
qed

lemma expo_le:
  assumes "x \<noteq> 0" and "\<bar>x\<bar> < 2 powi (k + 1)" and "- 1022 \<le> k"
  shows "expo x \<le> k"
proof -
  have "ilog2 \<bar>x\<bar> \<le> k" using assms(1,2) by (intro ilog2_le) simp_all
  with assms(3) show ?thesis by (simp add: expo_def)
qed

text \<open>Every \<open>m * 2 powi k\<close> with \<open>|m| < 2^53\<close> and \<open>k\<close> at least \<open>-1074\<close> is rounded to itself.\<close>

lemma fl_exact:
  assumes x: "x = of_int m * 2 powi k" and m: "\<bar>m\<bar> < 2 ^ 53" and k: "- 1074 \<le> k"
  shows "fl x = x"
proof (cases "m = 0")
  case True
  with x show ?thesis by simp
next
  case False
  have p: "(0::real) < 2 powi k" by simp
  have nz: "x \<noteq> 0" using False x by simp
  have "\<bar>x\<bar> = of_int \<bar>m\<bar> * 2 powi k" by (simp add: x abs_mult)
  also have "\<dots> < 2 ^ 53 * 2 powi k"
  proof -
    have "(of_int \<bar>m\<bar> :: real) < of_int (2 ^ 53)" using m by (simp only: of_int_less_iff)
    then show ?thesis using p by simp
  qed
  also have "\<dots> = 2 powi (k + 52 + 1)" by (simp add: power_int_add)
  finally have "\<bar>x\<bar> < 2 powi (k + 52 + 1)" .
  then have "expo x \<le> k + 52" using nz k by (intro expo_le) simp_all
  then have le: "expo x - 52 \<le> k" by simp
  have "x / ulp x = of_int m * (2 powi k / 2 powi (expo x - 52))" by (simp add: x ulp_def)
  also have "\<dots> = of_int (m * 2 ^ nat (k - (expo x - 52)))"
    by (simp only: pow2_ratio_int [OF le] of_int_mult)
  finally show ?thesis by (rule fl_at_scale)
qed

lemma abs_scaled_less:
  assumes "x \<noteq> 0"
  shows "\<bar>x / ulp x\<bar> < 2 ^ 53"
proof -
  have pos: "0 < \<bar>x\<bar>" using assms by simp
  from ilog2_bounds [OF pos] have "\<bar>x\<bar> < 2 powi (ilog2 \<bar>x\<bar> + 1)" by simp
  also have "\<dots> \<le> 2 powi (expo x + 1)"
    by (intro power_int_increasing) (simp_all add: expo_def)
  also have "\<dots> = 2 ^ 53 * ulp x" by (simp add: ulp_def power_int_diff power_int_add)
  finally have "\<bar>x\<bar> / ulp x < 2 ^ 53" by (simp add: pos_divide_less_eq)
  then show ?thesis by simp
qed

lemma fl_repr: "\<exists>m k. fl x = of_int m * 2 powi k \<and> \<bar>m\<bar> < 2 ^ 53 \<and> - 1074 \<le> k"
proof (cases "x = 0")
  case True
  have "fl x = of_int 0 * 2 powi 0 \<and> \<bar>0::int\<bar> < 2 ^ 53 \<and> (- 1074::int) \<le> 0"
    using True by simp
  then show ?thesis by blast
next
  case False
  define M where "M = rne (x / ulp x)"
  have e: "- 1074 \<le> expo x - 52" by (simp add: expo_def)
  from abs_scaled_less [OF False]
  have "x / ulp x \<le> 2 ^ 53 \<and> - (2 ^ 53) \<le> x / ulp x" by linarith
  then have b: "x / ulp x \<le> of_int (2 ^ 53)" "of_int (- (2 ^ 53)) \<le> x / ulp x" by simp_all
  have "M \<le> 2 ^ 53" "- (2 ^ 53) \<le> M"
    unfolding M_def by (rule rne_le [OF b(1)], rule rne_ge [OF b(2)])
  then consider "\<bar>M\<bar> < 2 ^ 53" | "M = 2 ^ 53" | "M = - (2 ^ 53)" by linarith
  then show ?thesis
  proof cases
    case 1
    have "fl x = of_int M * 2 powi (expo x - 52)" by (simp add: fl_def M_def ulp_def)
    with 1 e show ?thesis by blast
  next
    case 2
    define k' where "k' = expo x - 52 + 1"
    have s: "(2::real) powi k' = 2 * 2 powi (expo x - 52)"
      unfolding k'_def by (rule pow2_succ)
    have "fl x = of_int M * ulp x" by (simp add: fl_def M_def)
    also have "\<dots> = 2 ^ 52 * (2 * 2 powi (expo x - 52))" by (simp add: 2 ulp_def)
    also have "\<dots> = of_int (2 ^ 52) * 2 powi k'" by (simp only: s) simp
    finally have "fl x = of_int (2 ^ 52) * 2 powi k'" .
    moreover have "\<bar>2 ^ 52 :: int\<bar> < 2 ^ 53" by simp
    moreover have "- 1074 \<le> k'" using e by (simp add: k'_def)
    ultimately show ?thesis by blast
  next
    case 3
    define k' where "k' = expo x - 52 + 1"
    have s: "(2::real) powi k' = 2 * 2 powi (expo x - 52)"
      unfolding k'_def by (rule pow2_succ)
    have "fl x = of_int M * ulp x" by (simp add: fl_def M_def)
    also have "\<dots> = - (2 ^ 52) * (2 * 2 powi (expo x - 52))" by (simp add: 3 ulp_def)
    also have "\<dots> = of_int (- (2 ^ 52)) * 2 powi k'" by (simp only: s) simp
    finally have "fl x = of_int (- (2 ^ 52)) * 2 powi k'" .
    moreover have "\<bar>- (2 ^ 52) :: int\<bar> < 2 ^ 53" by simp
    moreover have "- 1074 \<le> k'" using e by (simp add: k'_def)
    ultimately show ?thesis by blast
  qed
qed

lemma fl_idem: "fl (fl x) = fl x"
proof -
  from fl_repr [of x] obtain m k
    where "fl x = of_int m * 2 powi k" "\<bar>m\<bar> < 2 ^ 53" "- 1074 \<le> k" by blast
  then show ?thesis by (rule fl_exact)
qed

lemma fl_nonneg: "0 \<le> x \<Longrightarrow> 0 \<le> fl x"
proof -
  assume "0 \<le> x"
  then have "of_int 0 \<le> x / ulp x" by simp
  then have "0 \<le> rne (x / ulp x)" by (rule rne_ge)
  then show ?thesis by (simp add: fl_def)
qed

lemma fl_abs_le_pow2:
  assumes j: "- 1022 \<le> j" and x: "\<bar>x\<bar> \<le> 2 powi j"
  shows "\<bar>fl x\<bar> \<le> 2 powi j"
proof (cases "x = 0")
  case True
  then show ?thesis by simp
next
  case False
  have "(2::real) powi j < 2 powi (j + 1)" by (intro power_int_strict_increasing) simp_all
  with x have "\<bar>x\<bar> < 2 powi (j + 1)" by linarith
  then have "expo x \<le> j" using False j by (intro expo_le)
  then have le: "expo x - 52 \<le> j" by simp
  define N :: int where "N = 2 ^ nat (j - (expo x - 52))"
  have N: "2 powi j / ulp x = of_int N"
    unfolding N_def ulp_def by (rule pow2_ratio_int [OF le])
  have "\<bar>x\<bar> / ulp x \<le> 2 powi j / ulp x" using x by (simp add: divide_right_mono)
  then have "\<bar>x / ulp x\<bar> \<le> of_int N" by (simp add: N)
  then have "x / ulp x \<le> of_int N \<and> - of_int N \<le> x / ulp x" by linarith
  then have b: "x / ulp x \<le> of_int N" "of_int (- N) \<le> x / ulp x" by simp_all
  have "rne (x / ulp x) \<le> N" "- N \<le> rne (x / ulp x)"
    by (rule rne_le [OF b(1)], rule rne_ge [OF b(2)])
  then have "\<bar>rne (x / ulp x)\<bar> \<le> N" by simp
  then have "\<bar>of_int (rne (x / ulp x)) :: real\<bar> \<le> of_int N" by linarith
  then have "\<bar>of_int (rne (x / ulp x))\<bar> * ulp x \<le> of_int N * ulp x"
    by (intro mult_right_mono) simp_all
  moreover have "of_int N * ulp x = 2 powi j" using N by (simp add: field_simps)
  ultimately show ?thesis by (simp add: fl_def abs_mult)
qed

lemma halfStep_small: "0 < halfStep \<and> halfStep \<le> 1 / 2 ^ 60"
proof -
  have "(2::real) powi (- 1075) \<le> 2 powi (- 60)" by (intro power_int_increasing) simp_all
  then show ?thesis by (simp add: halfStep_def power_int_minus_divide)
qed

lemma fl_error: "\<bar>fl x - x\<bar> \<le> \<bar>x\<bar> / 2 ^ 53 + halfStep"
proof (cases "x = 0")
  case True
  then show ?thesis using halfStep_small by simp
next
  case False
  have "\<bar>of_int (rne (x / ulp x)) - x / ulp x\<bar> \<le> 1 / 2" by (rule rne_near)
  then have "\<bar>of_int (rne (x / ulp x)) - x / ulp x\<bar> * ulp x \<le> 1 / 2 * ulp x"
    by (intro mult_right_mono) simp_all
  moreover have "\<bar>of_int (rne (x / ulp x)) - x / ulp x\<bar> * ulp x = \<bar>fl x - x\<bar>"
  proof -
    have "\<bar>of_int (rne (x / ulp x)) - x / ulp x\<bar> * ulp x
        = \<bar>(of_int (rne (x / ulp x)) - x / ulp x) * ulp x\<bar>"
      by (simp add: abs_mult)
    also have "(of_int (rne (x / ulp x)) - x / ulp x) * ulp x = fl x - x"
      by (simp add: fl_def left_diff_distrib)
    finally show ?thesis .
  qed
  ultimately have err: "\<bar>fl x - x\<bar> \<le> ulp x / 2" by simp
  have "ulp x / 2 \<le> \<bar>x\<bar> / 2 ^ 53 + halfStep"
  proof (cases "- 1022 \<le> ilog2 \<bar>x\<bar>")
    case True
    then have "expo x = ilog2 \<bar>x\<bar>" by (simp add: expo_def)
    moreover from ilog2_bounds [of "\<bar>x\<bar>"] False have "2 powi (ilog2 \<bar>x\<bar>) \<le> \<bar>x\<bar>" by simp
    ultimately have "2 powi (expo x) \<le> \<bar>x\<bar>" by simp
    moreover have "ulp x / 2 = 2 powi (expo x) / 2 ^ 53"
      by (simp add: ulp_def power_int_diff)
    ultimately have "ulp x / 2 \<le> \<bar>x\<bar> / 2 ^ 53" by (simp add: divide_right_mono)
    then show ?thesis using halfStep_small by linarith
  next
    case b: False
    then have "expo x = - 1022" by (simp add: expo_def)
    then have "ulp x / 2 = halfStep"
      by (simp add: ulp_def halfStep_def power_int_minus_divide)
    then show ?thesis by simp
  qed
  with err show ?thesis by linarith
qed

lemma val_D: "val (D x) = fl x"
  by (simp add: D_def Abs_double_inverse fl_idem)

declare val_inverse [code abstype]

declare val_D [code abstract]

lemma val_literals:
  "val (D 0) = 0" "val (D 1) = 1" "val (D 2) = 2" "val (D 4) = 4"
  by (simp_all add: val_D fl_def ulp_def expo_def ilog2.simps rne_def)

lemma val_dadd: "val (dadd a b) = fl (val a + val b)"
  by (simp add: dadd_def val_D)

lemma val_dsub: "val (dsub a b) = fl (val a - val b)"
  by (simp add: dsub_def val_D)

lemma val_dmul: "val (dmul a b) = fl (val a * val b)"
  by (simp add: dmul_def val_D)

lemma val_toFixed: "val (toFixed d x) = fl (toFixedDecimal d (val x))"
  by (simp add: toFixed_def val_D)

section \<open>The client's reducer and callbacks\<close>

lemma reducer_update_twice:
  "incidentsReducer (incidentsReducer state (ActionUpdate incident)) (ActionUpdate incident)
     = incidentsReducer state (ActionUpdate incident)"
proof (cases "list_ex (\<lambda>item. incidentId item = incidentId incident) state")
  case True
  then have "list_ex (\<lambda>item. incidentId item = incidentId incident)
      (map (\<lambda>item. if incidentId item = incidentId incident then incident else item) state)"
    by (auto simp: list_ex_iff)
  with True show ?thesis by (simp add: comp_def)
next
  case False
  then have "map (\<lambda>item. if incidentId item = incidentId incident then incident else item) state = state"
    by (intro map_idI) (auto simp: list_ex_iff)
  with False show ?thesis by simp
qed

text \<open>
  C5. Applying the same \<open>incidentUpdated\<close> event twice gives the list that applying it once
  gives: for the reducer's update action, and for the message handler that dispatches it.
\<close>

theorem update_idempotent:
  "incidentsReducer (incidentsReducer state (ActionUpdate incident)) (ActionUpdate incident)
     = incidentsReducer state (ActionUpdate incident)
   \<and> handleMessage (handleMessage st (Parsed (IncidentUpdated incident))) (Parsed (IncidentUpdated incident))
     = handleMessage st (Parsed (IncidentUpdated incident))"
  using reducer_update_twice by (simp add: handleMessage_def)

text \<open>
  C9. While the socket is not open, \<open>sendIncident\<close> sends nothing and returns the state it
  was given: no field changes, \<open>lastError\<close> included, and nothing is queued.
\<close>

theorem sendIncident_closed_drops:
  "\<not> socketOpen st \<Longrightarrow> sendIncident st incident = (st, [])"
  by (simp add: sendIncident_def)

theorem sendIncident_closed_drops_witness:
  "\<not> socketOpen (onClose initialClient)
   \<and> sendIncident (onClose initialClient) freshIncident = (onClose initialClient, [])"
  using sendIncident_closed_drops [of "onClose initialClient" freshIncident]
  by (simp add: socketOpen_def initialClient_def onClose_def)

text \<open>
  C10. \<open>updateIncident\<close> changes the local list whatever the state of the socket, and
  nothing else of the state: when the list holds an incident with the id, every such
  entry is replaced in place by the given incident; otherwise the incident is put at the
  head. The \<open>updateIncident\<close> message is sent exactly when the socket is open.
\<close>

theorem updateIncident_local_first:
  "incidents (fst (updateIncident st incident))
     = (if \<exists>item\<in>set (incidents st). incidentId item = incidentId incident
        then map (\<lambda>item. if incidentId item = incidentId incident then incident else item) (incidents st)
        else incident # incidents st)
   \<and> fst (updateIncident st incident) = st\<lparr>incidents := incidents (fst (updateIncident st incident))\<rparr>
   \<and> snd (updateIncident st incident) = (if socketRef st = Some OPEN then [UpdateIncident incident] else [])"
  by (simp add: updateIncident_def Let_def socketOpen_def list_ex_iff)

theorem updateIncident_local_first_witness:
  "socketRef offlineClient = Some CLOSED
   \<and> incidents offlineClient = [newIncident, activeIncident]
   \<and> incidents (fst (updateIncident offlineClient reassignedIncident)) = [newIncident, reassignedIncident]
   \<and> snd (updateIncident offlineClient reassignedIncident) = []
   \<and> incidents (fst (updateIncident offlineClient freshIncident))
       = [freshIncident, newIncident, activeIncident]
   \<and> snd (updateIncident offlineClient freshIncident) = []"
  using updateIncident_local_first [of offlineClient reassignedIncident]
        updateIncident_local_first [of offlineClient freshIncident]
  by (simp add: offlineClient_def onClose_def initialClient_def newIncident_def activeIncident_def
      reassignedIncident_def freshIncident_def buildIncident_def)

section \<open>Frames the client cannot accept\<close>

text \<open>
  C8, as the code has it. A frame that is valid JSON but fails the server-message schema
  (every object with an unrecognised \<open>type\<close> is such a frame) leaves the incident list, the
  catalog and the interval as they were and sets \<open>lastError\<close> to a fixed text, which the
  second copy of the hook also hands to \<open>onError\<close>; no request follows. Only a frame that
  is not JSON is dropped with the state unchanged.
\<close>

theorem schema_mismatch_sets_lastError:
  "handleMessage st SchemaMismatch
     = st\<lparr>lastError := Some ''Received an unexpected message shape from the server.''\<rparr>
   \<and> deliver st SchemaMismatch = (handleMessage st SchemaMismatch, [])
   \<and> handleMessage_v2 numberToString st SchemaMismatch
     = (st\<lparr>lastError := Some ''Received an unexpected message shape from the server.''\<rparr>,
        [''Received an unexpected message shape from the server.''])
   \<and> handleMessage st NotJson = st
   \<and> handleMessage_v2 numberToString st NotJson = (st, [])"
  by (simp add: deliver_def deliverFrames_def handleMessage_def handleMessage_v2_def Let_def)

text \<open>C8 as stated fails: on a fresh client a schema-invalid frame changes \<open>lastError\<close>.\<close>

theorem schema_mismatch_not_silent:
  "lastError (handleMessage initialClient SchemaMismatch) \<noteq> lastError initialClient"
  by (simp add: initialClient_def handleMessage_def)

section \<open>Interval acknowledgement\<close>

lemma handleMessage_clears_error_on_interval:
  "lastError (handleMessageAt rendered st (Parsed (ReadingIntervalUpdated y))) = None"
  by (simp add: Let_def)

text \<open>
  Two broadcasts that arrive before React renders again are both compared with the
  interval of the last committed render: after 500 and then 2000 on a client showing 2000
  the next render shows 500. With a render between the two frames it shows 2000.
\<close>

lemma frames_between_renders:
  "readingIntervalMs (fst (onOpen (mount initialClient))) = 2000
   \<and> readingIntervalMs (fst (deliverFrames (fst (onOpen (mount initialClient)))
        [Parsed (ReadingIntervalUpdated 500), Parsed (ReadingIntervalUpdated 2000)])) = 500
   \<and> readingIntervalMs (fst (deliver (fst (deliver (fst (onOpen (mount initialClient)))
        (Parsed (ReadingIntervalUpdated 500)))) (Parsed (ReadingIntervalUpdated 2000)))) = 2000"
  by (simp add: onOpen_def mount_def initialClient_def requestServerInterval_def socketOpen_def
      clearIntervalTimeout_def deliver_def deliverFrames_def readingIntervalEffect_def Let_def)

text \<open>
  The second copy of the hook compares the broadcast with the pending request: on a
  mismatch it adopts the server's value, clears the pending request and leaves a warning.
\<close>

lemma handleMessage_v2_mismatch:
  assumes "pendingIntervalRef st = Some x" and "y \<noteq> x"
  shows "readingIntervalMs (fst (handleMessage_v2 numberToString st (Parsed (ReadingIntervalUpdated y)))) = y
       \<and> pendingIntervalRef (fst (handleMessage_v2 numberToString st (Parsed (ReadingIntervalUpdated y)))) = None
       \<and> lastError (fst (handleMessage_v2 numberToString st (Parsed (ReadingIntervalUpdated y))))
           = Some (''Server interval is '' @ numberToString y @ ''ms, expected '' @ numberToString x @ ''ms.'')"
  using assms by (simp add: handleMessage_v2_def Let_def clearIntervalTimeout_def)

text \<open>
  C3 on \<open>handleMessage\<close> of \<^verbatim>\<open>hooks/useIncidentSocket.ts\<close>. With a request for 1000 pending, the
  broadcast of 2000 makes 2000 the local interval and clears the pending request, but
  \<open>lastError\<close> is \<open>None\<close> afterwards: this handler never reads the pending value and
  leaves no discrepancy warning.
\<close>

theorem interval_mismatch_leaves_no_warning:
  "pendingIntervalRef awaitingAck = Some 1000
   \<and> readingIntervalMs (handleMessage awaitingAck (Parsed (ReadingIntervalUpdated 2000))) = 2000
   \<and> pendingIntervalRef (handleMessage awaitingAck (Parsed (ReadingIntervalUpdated 2000))) = None
   \<and> lastError (handleMessage awaitingAck (Parsed (ReadingIntervalUpdated 2000))) = None
   \<and> lastError (fst (deliver awaitingAck (Parsed (ReadingIntervalUpdated 2000)))) = None"
  by (simp add: awaitingAck_def setReadingIntervalMs_def onOpen_def mount_def
      readingIntervalEffect_def requestServerInterval_def socketOpen_def
      initialClient_def clearIntervalTimeout_def deliver_def deliverFrames_def
      handleMessage_def Let_def)

section \<open>Bucketing\<close>

lemma in_bucket_iff:
  "incident \<in> set (getIncidentsByType incidents' type' e tys)
     \<longleftrightarrow> incident \<in> set incidents' \<and> matchesFilter e tys incident \<and> inBucket type' incident"
  by (auto simp: getIncidentsByType_def)

text \<open>
  C7, as the code has it. Under fixed filters \<open>e\<close> and \<open>tys\<close>, an incident of the list that is
  \<open>OPEN\<close> with no assignee (absent, \<open>null\<close> or the empty string) and passes the filters is in
  the new bucket and in no other; one that is \<open>OPEN\<close> with a non-empty \<open>assignedTo\<close> is in
  the active bucket exactly when it passes the filters and in no other; one that is
  \<open>CLOSED\<close> is in the completed bucket exactly when it passes the filters and in no
  other, whatever its \<open>assignedTo\<close>.
\<close>

theorem buckets_by_state_and_assignee:
  assumes "incident \<in> set incidents'"
  shows "(stateId incident = ''OPEN'' \<and> assignedTo incident \<in> {Undefined, Null, Assigned []}
            \<and> matchesFilter e tys incident
          \<longrightarrow> incident \<in> set (getIncidentsByType incidents' BucketNew e tys)
              \<and> incident \<notin> set (getIncidentsByType incidents' BucketActive e tys)
              \<and> incident \<notin> set (getIncidentsByType incidents' BucketCompleted e tys))
       \<and> (stateId incident = ''OPEN'' \<and> (\<exists>s. assignedTo incident = Assigned s \<and> s \<noteq> [])
          \<longrightarrow> incident \<notin> set (getIncidentsByType incidents' BucketNew e tys)
              \<and> (incident \<in> set (getIncidentsByType incidents' BucketActive e tys)
                   \<longleftrightarrow> matchesFilter e tys incident)
              \<and> incident \<notin> set (getIncidentsByType incidents' BucketCompleted e tys))
       \<and> (stateId incident = ''CLOSED''
          \<longrightarrow> incident \<notin> set (getIncidentsByType incidents' BucketNew e tys)
              \<and> incident \<notin> set (getIncidentsByType incidents' BucketActive e tys)
              \<and> (incident \<in> set (getIncidentsByType incidents' BucketCompleted e tys)
                   \<longleftrightarrow> matchesFilter e tys incident))"
  using assms
  by (auto simp: in_bucket_iff inBucket_def STATE_OPEN_def STATE_CLOSED_def)

theorem buckets_by_state_and_assignee_witness:
  "getIncidentsByType [newIncident, activeIncident, completedIncident] BucketNew (Some ''esc-1'') None
     = [newIncident]
   \<and> getIncidentsByType [newIncident, activeIncident, completedIncident] BucketActive (Some ''esc-1'') None
     = [activeIncident]
   \<and> getIncidentsByType [newIncident, activeIncident, completedIncident] BucketCompleted (Some ''esc-1'') None
     = [completedIncident]"
  using buckets_by_state_and_assignee
          [of newIncident "[newIncident, activeIncident, completedIncident]" "Some ''esc-1''" None]
        buckets_by_state_and_assignee
          [of activeIncident "[newIncident, activeIncident, completedIncident]" "Some ''esc-1''" None]
        buckets_by_state_and_assignee
          [of completedIncident "[newIncident, activeIncident, completedIncident]" "Some ''esc-1''" None]
  by (simp add: getIncidentsByType_def matchesFilter_def inBucket_def newIncident_def activeIncident_def
      completedIncident_def buildIncident_def STATE_OPEN_def STATE_CLOSED_def)

text \<open>
  C7 as stated fails: an \<open>OPEN\<close> incident whose \<open>assignedTo\<close> is the empty string is not in the
  active bucket; it is in the new one.
\<close>

theorem blank_assignee_counts_as_new:
  "getIncidentsByType [blankAssigneeIncident] BucketActive None None = []
   \<and> getIncidentsByType [blankAssigneeIncident] BucketNew None None = [blankAssigneeIncident]"
  by (simp add: getIncidentsByType_def matchesFilter_def inBucket_def blankAssigneeIncident_def
      buildIncident_def STATE_OPEN_def)

section \<open>The reading generator\<close>

lemma round_half_near:
  fixes y :: real
  shows "\<bar>of_int \<lfloor>y + 1 / 2\<rfloor> - y\<bar> \<le> 1 / 2"
  by linarith

lemma scaled_abs_bound:
  fixes e q c :: real
  assumes "0 < q" and "\<bar>e\<bar> \<le> c"
  shows "\<bar>e / q\<bar> \<le> c / q"
  using assms by (simp add: divide_right_mono)

lemma toFixedDecimal_near: "\<bar>toFixedDecimal d x - x\<bar> \<le> 1 / (2 * 10 ^ d)"
proof -
  define q :: real where "q = 10 ^ d"
  have pos: "0 < q" by (simp add: q_def)
  show ?thesis
  proof (cases "x < 0")
    case True
    define n where "n = \<lfloor>(- x) * q + 1 / 2\<rfloor>"
    have "toFixedDecimal d x - x = - ((of_int n - (- x) * q) / q)"
      using True pos by (simp add: toFixedDecimal_def n_def q_def field_simps)
    moreover have "\<bar>(of_int n - (- x) * q) / q\<bar> \<le> (1 / 2) / q"
      unfolding n_def by (rule scaled_abs_bound [OF pos round_half_near])
    ultimately show ?thesis by (simp add: q_def)
  next
    case False
    define n where "n = \<lfloor>x * q + 1 / 2\<rfloor>"
    have "toFixedDecimal d x - x = (of_int n - x * q) / q"
      using False pos by (simp add: toFixedDecimal_def n_def q_def field_simps)
    moreover have "\<bar>(of_int n - x * q) / q\<bar> \<le> (1 / 2) / q"
      unfolding n_def by (rule scaled_abs_bound [OF pos round_half_near])
    ultimately show ?thesis by (simp add: q_def)
  qed
qed

lemma createReading_Some:
  "fst (createReading now (Some p) g) =
     \<lparr>timestamp = now,
      temperature = toFixed 1 (dadd (temperature p) (dsub (dmul (g 0) (D 4)) (D 2))),
      pressure = toFixed 2 (dadd (pressure p) (dsub (dmul (g (Suc 0)) (D 2)) (D 1)))\<rparr>"
  by (simp add: createReading_def Math_random_def Let_def)

lemma createReading_rest:
  "snd (createReading now previous g) =
     (\<lambda>n. g (n + (case previous of None \<Rightarrow> 4 | Some p \<Rightarrow> 2)))"
  by (cases previous) (simp_all add: createReading_def Math_random_def Let_def eval_nat_numeral)

text \<open>The drift: a draw \<open>r\<close> in \<open>[0, 1)\<close>, scaled by \<open>2 * c\<close> and shifted by \<open>c\<close>, stays within \<open>c\<close>.\<close>

lemma drift_within:
  fixes r :: real and j :: int
  assumes r: "0 \<le> r" "r < 1" and j: "- 1022 \<le> j"
  shows "\<bar>fl (fl (r * 2 powi (j + 1)) - 2 powi j)\<bar> \<le> 2 powi j"
proof -
  have p: "(0::real) < 2 powi (j + 1)" by simp
  have "0 \<le> r * 2 powi (j + 1)" using r by simp
  then have lo: "0 \<le> fl (r * 2 powi (j + 1))" by (rule fl_nonneg)
  have "r * 2 powi (j + 1) \<le> 1 * 2 powi (j + 1)" using r by (intro mult_right_mono) simp_all
  then have "\<bar>r * 2 powi (j + 1)\<bar> \<le> 2 powi (j + 1)" using r by simp
  then have "\<bar>fl (r * 2 powi (j + 1))\<bar> \<le> 2 powi (j + 1)"
    using j by (intro fl_abs_le_pow2) simp_all
  then have hi: "fl (r * 2 powi (j + 1)) \<le> 2 * 2 powi j" by (simp add: pow2_succ)
  from lo hi have "\<bar>fl (r * 2 powi (j + 1)) - 2 powi j\<bar> \<le> 2 powi j" by (simp add: abs_le_iff)
  then show ?thesis using j by (intro fl_abs_le_pow2)
qed

lemma rounded_sum_bound:
  fixes x u c :: real
  assumes u: "\<bar>u\<bar> \<le> c" and c: "c \<le> 2"
  shows "\<bar>fl (toFixedDecimal d (fl (x + u))) - x\<bar> \<le> c + 1 / (2 * 10 ^ d) + (\<bar>x\<bar> + 3) / 2 ^ 51"
proof -
  define s where "s = fl (x + u)"
  define t where "t = toFixedDecimal d s"
  define n where "n = fl t"
  define h where "h = halfStep"
  define dl :: real where "dl = 1 / (2 * 10 ^ d)"
  have h: "0 < h" "h \<le> 1 / 2 ^ 60" using halfStep_small by (simp_all add: h_def)
  have "(1::real) \<le> 10 ^ d" by simp
  then have dl: "0 \<le> dl" "dl \<le> 1 / 2" by (simp_all add: dl_def field_simps)
  have xu: "\<bar>x + u\<bar> \<le> \<bar>x\<bar> + 2" using u c by linarith
  have e1: "\<bar>s - (x + u)\<bar> \<le> \<bar>x + u\<bar> / 9007199254740992 + h"
    using fl_error [of "x + u"] by (simp add: s_def h_def)
  have e2: "\<bar>t - s\<bar> \<le> dl" unfolding t_def dl_def by (rule toFixedDecimal_near)
  have e3: "\<bar>n - t\<bar> \<le> \<bar>t\<bar> / 9007199254740992 + h"
    using fl_error [of t] by (simp add: n_def h_def)
  have h': "h \<le> 1 / 1152921504606846976" using h(2) by simp
  define A where "A = \<bar>x\<bar> + 2"
  define a0 where "a0 = \<bar>x + u\<bar>"
  define a1 where "a1 = \<bar>s - (x + u)\<bar>"
  define a2 where "a2 = \<bar>t - s\<bar>"
  define a3 where "a3 = \<bar>n - t\<bar>"
  define bs where "bs = \<bar>s\<bar>"
  define bt where "bt = \<bar>t\<bar>"
  have A: "0 \<le> A" "a0 \<le> A" using xu by (simp_all add: A_def a0_def)
  have f1: "a1 \<le> a0 / 9007199254740992 + h" using e1 by (simp add: a1_def a0_def)
  have f2: "a2 \<le> dl" using e2 by (simp add: a2_def)
  have f3: "a3 \<le> bt / 9007199254740992 + h" using e3 by (simp add: a3_def bt_def)
  have g1: "bs \<le> a0 + a1" unfolding bs_def a0_def a1_def by linarith
  have g2: "bt \<le> bs + a2" unfolding bt_def bs_def a2_def by linarith
  have g3: "\<bar>n - x\<bar> \<le> \<bar>u\<bar> + a1 + a2 + a3" unfolding a1_def a2_def a3_def by linarith
  have b1: "a1 \<le> A / 9007199254740992 + h" using f1 A(2) by linarith
  have s: "bs \<le> 2 * A + 1" using g1 b1 A h(1) h' by linarith
  have t: "bt \<le> 2 * A + 2" using g2 s f2 dl by linarith
  have b3: "a3 \<le> (2 * A + 2) / 9007199254740992 + h" using f3 t by argo
  have "\<bar>n - x\<bar> \<le> c + dl + (A / 9007199254740992 + h) + ((2 * A + 2) / 9007199254740992 + h)"
    using g3 u b1 f2 b3 by argo
  also have "\<dots> \<le> c + dl + (A + 1) / 2251799813685248"
    using A(1) h(1) h' by argo
  finally have "\<bar>n - x\<bar> \<le> c + dl + (A + 1) / 2251799813685248" .
  moreover have "A + 1 = \<bar>x\<bar> + 3" by (simp add: A_def)
  moreover have "(2251799813685248::real) = 2 ^ 51" by simp
  ultimately have "\<bar>n - x\<bar> \<le> c + dl + (\<bar>x\<bar> + 3) / 2 ^ 51" by (simp only:)
  then show ?thesis by (simp add: n_def t_def s_def dl_def)
qed

lemmas fl_eval = fl_def ulp_def expo_def ilog2.simps rne_def Let_def

text \<open>
  C6, as the code has it, on doubles. With draws in \<open>[0, 1)\<close>, the drift added to the
  previous temperature is within 2 and the drift added to the previous pressure within
  1; the new value is the sum rounded to 1 and 2 decimals and read back as a double.
  The new value differs from the previous one by at most 2.05, and 1.005, plus the
  rounding error of the two conversions, which is at most \<open>(|previous| + 3) / 2^51\<close>. For
  previous values of magnitude at most 1000 the differences are at most 2.051 and 1.006.
\<close>

theorem drift_bounded_up_to_rounding:
  assumes draws: "\<forall>n. 0 \<le> val (g n) \<and> val (g n) < 1"
  shows "timestamp (fst (createReading now (Some p) g)) = now
       \<and> val (temperature (fst (createReading now (Some p) g)))
           = fl (toFixedDecimal 1 (fl (val (temperature p) + fl (fl (val (g 0) * 4) - 2))))
       \<and> val (pressure (fst (createReading now (Some p) g)))
           = fl (toFixedDecimal 2 (fl (val (pressure p) + fl (fl (val (g 1) * 2) - 1))))
       \<and> \<bar>fl (fl (val (g 0) * 4) - 2)\<bar> \<le> 2
       \<and> \<bar>fl (fl (val (g 1) * 2) - 1)\<bar> \<le> 1
       \<and> \<bar>val (temperature (fst (createReading now (Some p) g))) - val (temperature p)\<bar>
           \<le> 2 + 1 / 20 + (\<bar>val (temperature p)\<bar> + 3) / 2 ^ 51
       \<and> \<bar>val (pressure (fst (createReading now (Some p) g))) - val (pressure p)\<bar>
           \<le> 1 + 1 / 200 + (\<bar>val (pressure p)\<bar> + 3) / 2 ^ 51
       \<and> (\<bar>val (temperature p)\<bar> \<le> 1000
            \<longrightarrow> \<bar>val (temperature (fst (createReading now (Some p) g))) - val (temperature p)\<bar>
                  \<le> 2051 / 1000)
       \<and> (\<bar>val (pressure p)\<bar> \<le> 1000
            \<longrightarrow> \<bar>val (pressure (fst (createReading now (Some p) g))) - val (pressure p)\<bar>
                  \<le> 1006 / 1000)"
proof -
  define u where "u = fl (fl (val (g 0) * 4) - 2)"
  define v where "v = fl (fl (val (g 1) * 2) - 1)"
  define x where "x = val (temperature p)"
  define y where "y = val (pressure p)"
  have u: "\<bar>u\<bar> \<le> 2"
    using drift_within [of "val (g 0)" 1] draws by (simp add: u_def)
  have v: "\<bar>v\<bar> \<le> 1"
    using drift_within [of "val (g 1)" 0] draws by (simp add: v_def)
  have T: "val (temperature (fst (createReading now (Some p) g))) = fl (toFixedDecimal 1 (fl (x + u)))"
    by (simp add: createReading_Some val_toFixed val_dadd val_dsub val_dmul val_literals u_def x_def)
  have P: "val (pressure (fst (createReading now (Some p) g))) = fl (toFixedDecimal 2 (fl (y + v)))"
    by (simp add: createReading_Some val_toFixed val_dadd val_dsub val_dmul val_literals v_def y_def)
  have S: "timestamp (fst (createReading now (Some p) g)) = now"
    by (simp add: createReading_Some)
  have bt: "\<bar>fl (toFixedDecimal 1 (fl (x + u))) - x\<bar> \<le> 2 + 1 / 20 + (\<bar>x\<bar> + 3) / 2 ^ 51"
    using rounded_sum_bound [OF u, of 1 x] by simp
  have bp: "\<bar>fl (toFixedDecimal 2 (fl (y + v))) - y\<bar> \<le> 1 + 1 / 200 + (\<bar>y\<bar> + 3) / 2 ^ 51"
    using rounded_sum_bound [OF v, of 2 y] by simp
  have ct: "\<bar>fl (toFixedDecimal 1 (fl (x + u))) - x\<bar> \<le> 2051 / 1000" if "\<bar>x\<bar> \<le> 1000"
  proof -
    have "(\<bar>x\<bar> + 3) / 2251799813685248 \<le> 1 / 1000" using that by argo
    moreover have "\<bar>fl (toFixedDecimal 1 (fl (x + u))) - x\<bar> \<le> 2 + 1 / 20 + (\<bar>x\<bar> + 3) / 2251799813685248"
      using bt by simp
    ultimately show ?thesis by argo
  qed
  have cp: "\<bar>fl (toFixedDecimal 2 (fl (y + v))) - y\<bar> \<le> 1006 / 1000" if "\<bar>y\<bar> \<le> 1000"
  proof -
    have "(\<bar>y\<bar> + 3) / 2251799813685248 \<le> 1 / 1000" using that by argo
    moreover have "\<bar>fl (toFixedDecimal 2 (fl (y + v))) - y\<bar> \<le> 1 + 1 / 200 + (\<bar>y\<bar> + 3) / 2251799813685248"
      using bp by simp
    ultimately show ?thesis by argo
  qed
  show ?thesis
    unfolding T P S using u v bt bp ct cp unfolding u_def v_def x_def y_def by blast
qed

lemma zeroDraws_in_range: "\<forall>n. 0 \<le> val (zeroDraws n) \<and> val (zeroDraws n) < 1"
  by (simp add: zeroDraws_def val_literals)

lemma val_sampleReading:
  "val (temperature sampleReading) = 141 / 2" "val (pressure sampleReading) = 81 / 4"
  by (simp_all add: sampleReading_def val_D fl_eval)

theorem drift_bounded_up_to_rounding_witness:
  "(\<forall>n. 0 \<le> val (zeroDraws n) \<and> val (zeroDraws n) < 1)
   \<and> \<bar>val (temperature sampleReading)\<bar> \<le> 1000
   \<and> \<bar>val (pressure sampleReading)\<bar> \<le> 1000
   \<and> \<bar>val (temperature (fst (createReading t0 (Some sampleReading) zeroDraws)))
          - val (temperature sampleReading)\<bar> \<le> 2051 / 1000
   \<and> \<bar>val (pressure (fst (createReading t0 (Some sampleReading) zeroDraws)))
          - val (pressure sampleReading)\<bar> \<le> 1006 / 1000"
proof -
  have t: "\<bar>val (temperature sampleReading)\<bar> \<le> 1000" by (simp add: val_sampleReading)
  have p: "\<bar>val (pressure sampleReading)\<bar> \<le> 1000" by (simp add: val_sampleReading)
  from drift_bounded_up_to_rounding [OF zeroDraws_in_range, of t0 sampleReading]
       zeroDraws_in_range t p
  show ?thesis by blast
qed

text \<open>
  C6 as stated fails: from a previous reading of temperature 0.03125 and pressure
  0.00390625, with both draws 0, the next reading is \<open>-2\<close> and \<open>-1\<close>: the differences are
  2.03125 and 1.00390625.
\<close>

theorem drift_exceeds_off_grid:
  "val (temperature offGridReading) = 1 / 32
   \<and> val (pressure offGridReading) = 1 / 256
   \<and> val (temperature (fst (createReading t0 (Some offGridReading) zeroDraws))) = - 2
   \<and> val (pressure (fst (createReading t0 (Some offGridReading) zeroDraws))) = - 1
   \<and> \<not> (\<bar>val (temperature (fst (createReading t0 (Some offGridReading) zeroDraws)))
          - val (temperature offGridReading)\<bar> \<le> 2)
   \<and> \<not> (\<bar>val (pressure (fst (createReading t0 (Some offGridReading) zeroDraws)))
          - val (pressure offGridReading)\<bar> \<le> 1)"
  by (simp add: createReading_Some offGridReading_def zeroDraws_def val_toFixed val_dadd val_dsub
      val_dmul val_D toFixedDecimal_def fl_eval)

text \<open>
  Three computations on doubles. The literal 0.15 denotes a double below 0.15 and is
  printed as 0.1. From 64.4, itself a value the generator produces, a draw of 0.01 leads
  to 62.4, and the two doubles differ by more than 2. From \<open>2^54 + 4\<close> a draw of 0 leads to
  \<open>2^54\<close>.
\<close>

lemma doubles_round_as_the_runtime_does:
  "val (toFixed 1 (D (15 / 100))) = val (D (1 / 10))"
  "val (temperature (fst (createReading t0
      (Some \<lparr>timestamp = t0, temperature = D (644 / 10), pressure = D 1\<rparr>) (\<lambda>n. D (1 / 100)))))
     - val (D (644 / 10)) = - (281474976710657 / 140737488355328)"
  "val (temperature (fst (createReading t0
      (Some \<lparr>timestamp = t0, temperature = D (2 ^ 54 + 4), pressure = D 1\<rparr>) (\<lambda>n. D 0))))
     - val (D (2 ^ 54 + 4)) = - 4"
  by (simp_all add: createReading_Some val_toFixed val_dadd val_dsub val_dmul val_D
      toFixedDecimal_def fl_eval)

section \<open>The server's store\<close>

subsection \<open>Rejected identifiers\<close>

text \<open>
  C4. An \<open>addIncident\<close> whose id fails the pattern is answered with one \<open>error\<close> message of
  code \<open>INVALID_INCIDENT_ID\<close> to the sender; the server state, the incident list with it, is
  the one before, and nothing is broadcast.
\<close>

theorem addIncident_bad_id_rejected:
  "\<not> INCIDENT_ID_PATTERN_test (incidentId incident) \<Longrightarrow>
   onMessage now st (Parsed (AddIncident incident)) =
     (st, [Reply (ErrorMessage (Some ''INVALID_INCIDENT_ID'')
                   (Some ''Incident ID must be 3-32 characters: letters, numbers, or hyphens.''))])"
  by (simp add: sendError_def)

theorem addIncident_bad_id_rejected_witness:
  "\<not> INCIDENT_ID_PATTERN_test (incidentId shortIdIncident)
   \<and> onMessage t0 seeded (Parsed (AddIncident shortIdIncident)) =
     (seeded, [Reply (ErrorMessage (Some ''INVALID_INCIDENT_ID'')
                   (Some ''Incident ID must be 3-32 characters: letters, numbers, or hyphens.''))])"
proof -
  have bad: "\<not> INCIDENT_ID_PATTERN_test (incidentId shortIdIncident)"
    by (simp add: shortIdIncident_def buildIncident_def INCIDENT_ID_PATTERN_test_def)
  from addIncident_bad_id_rejected [OF bad, of t0 seeded] bad show ?thesis by blast
qed

subsection \<open>Identifiers in the store\<close>

lemma seedReadings_ids: "map incidentId (fst (seedReadings now xs g)) = map incidentId xs"
  by (induction xs arbitrary: g) (simp_all add: Let_def case_prod_beta)

lemma startup_ids:
  "storeIds (startup ago now g) = [''inc-1001'', ''inc-1002'', ''inc-1003'', ''inc-1004'']"
proof -
  have "storeIds (startup ago now g) = map incidentId (fst (seedReadings now (seedIncidents ago) g))"
    by (simp add: storeIds_def startup_def case_prod_beta)
  also have "\<dots> = map incidentId (seedIncidents ago)"
    by (rule seedReadings_ids)
  finally show ?thesis by (simp add: seedIncidents_def)
qed

lemma advanceReadings_ids: "map incidentId (fst (advanceReadings now xs g)) = map incidentId xs"
  by (induction xs arbitrary: g) (simp_all add: Let_def case_prod_beta)

lemma tick_ids: "storeIds (fst (tick now st)) = storeIds st"
  using advanceReadings_ids [of now "serverIncidents st" "random st"]
  by (simp add: tick_def storeIds_def case_prod_beta)

lemma findIndex_Some: "findIndex P xs = Some i \<Longrightarrow> i < length xs \<and> P (xs ! i)"
  by (induction xs arbitrary: i) (auto split: if_splits option.splits)

lemma findIndex_None: "findIndex P xs = None \<Longrightarrow> \<forall>x\<in>set xs. \<not> P x"
  by (induction xs) (auto split: if_splits option.splits)

lemma update_ids:
  "storeIds (fst (onMessage now st (Parsed (UpdateIncident incident)))) =
     (if incidentId incident \<in> set (storeIds st) then storeIds st
      else incidentId incident # storeIds st)"
proof (cases "findIndex (\<lambda>item. incidentId item = incidentId incident) (serverIncidents st)")
  case None
  from findIndex_None [OF this] have "incidentId incident \<notin> set (storeIds st)"
    by (auto simp: storeIds_def)
  with None show ?thesis by (simp add: storeIds_def)
next
  case (Some i)
  from findIndex_Some [OF this]
  have i: "i < length (serverIncidents st)" "incidentId (serverIncidents st ! i) = incidentId incident"
    by simp_all
  then have "incidentId incident \<in> set (storeIds st)"
    unfolding storeIds_def by (metis length_map nth_map nth_mem)
  moreover have "map incidentId ((serverIncidents st)[i := incident]) = map incidentId (serverIncidents st)"
    using i by (simp add: map_update list_update_same_conv)
  ultimately show ?thesis using Some by (simp add: storeIds_def)
qed

lemma add_ids:
  "INCIDENT_ID_PATTERN_test (incidentId incident) \<Longrightarrow>
   storeIds (fst (onMessage now st (Parsed (AddIncident incident)))) = incidentId incident # storeIds st"
  by (simp add: storeIds_def Let_def case_prod_beta)

lemma add_rejected_state:
  "\<not> INCIDENT_ID_PATTERN_test (incidentId incident) \<Longrightarrow>
   fst (onMessage now st (Parsed (AddIncident incident))) = st"
  by simp

lemma step_distinct:
  assumes "distinct (storeIds st)" and "addIsFresh st ev"
  shows "distinct (storeIds (step st ev))"
proof (cases ev)
  case (Tick now)
  with assms show ?thesis by (simp add: tick_ids)
next
  case (Message now fr)
  show ?thesis
  proof (cases fr)
    case NotJson
    with Message assms show ?thesis by simp
  next
    case SchemaMismatch
    with Message assms show ?thesis by simp
  next
    case (Parsed m)
    show ?thesis
    proof (cases m)
      case (AddIncident incident)
      show ?thesis
      proof (cases "INCIDENT_ID_PATTERN_test (incidentId incident)")
        case True
        with assms Message Parsed AddIncident show ?thesis
          by (simp add: add_ids del: onMessage.simps)
      next
        case False
        with assms Message Parsed AddIncident show ?thesis
          by (simp add: add_rejected_state del: onMessage.simps)
      qed
    next
      case (UpdateIncident incident)
      with assms Message Parsed show ?thesis
        by (simp add: update_ids del: onMessage.simps)
    next
      case (SetReadingInterval ms)
      with assms Message Parsed show ?thesis by (simp add: storeIds_def Let_def)
    qed
  qed
qed

lemma run_distinct:
  "distinct (storeIds st) \<Longrightarrow> addsFresh st evs \<Longrightarrow> distinct (storeIds (run st evs))"
  unfolding run_def
  by (induction evs arbitrary: st) (simp_all add: step_distinct)

lemma addsFresh_take: "addsFresh st evs \<Longrightarrow> addsFresh st (take k evs)"
  by (induction evs arbitrary: st k) (auto simp: take_Cons split: nat.splits)

lemma pattern_inc_1001: "INCIDENT_ID_PATTERN_test ''inc-1001''"
  by (simp add: INCIDENT_ID_PATTERN_test_def idChar_def)

lemma pattern_test_incident: "INCIDENT_ID_PATTERN_test ''test-incident''"
  by (simp add: INCIDENT_ID_PATTERN_test_def idChar_def)

lemma freshEvents_fresh: "addsFresh (startup sampleAgo t0 zeroDraws) freshEvents"
  by (simp add: freshEvents_def freshIncident_def buildIncident_def startup_ids)

text \<open>
  C1, as the code has it. From the seeded store, along any sequence of ticks and frames
  in which every \<open>addIncident\<close> that passes the pattern carries an id the store does not
  hold at that moment, no two incidents share an id after any number of the events. An
  \<open>updateIncident\<close> never makes two incidents share an id. An \<open>addIncident\<close> that passes the
  pattern is always put at the head of the list, also when its id is already there.
\<close>

theorem ids_distinct_while_adds_fresh:
  "(addsFresh (startup ago now g) evs
      \<longrightarrow> (\<forall>k\<le>length evs. distinct (storeIds (run (startup ago now g) (take k evs)))))
   \<and> (distinct (storeIds st)
      \<longrightarrow> distinct (storeIds (step st (Message now' (Parsed (UpdateIncident incident))))))
   \<and> (INCIDENT_ID_PATTERN_test (incidentId incident)
      \<longrightarrow> storeIds (step st (Message now' (Parsed (AddIncident incident))))
            = incidentId incident # storeIds st)"
proof (intro conjI impI allI)
  fix k
  assume "addsFresh (startup ago now g) evs"
  then have "addsFresh (startup ago now g) (take k evs)" by (rule addsFresh_take)
  moreover have "distinct (storeIds (startup ago now g))" by (simp add: startup_ids)
  ultimately show "distinct (storeIds (run (startup ago now g) (take k evs)))"
    by (simp add: run_distinct)
next
  assume d: "distinct (storeIds st)"
  show "distinct (storeIds (step st (Message now' (Parsed (UpdateIncident incident)))))"
    by (rule step_distinct [OF d]) simp
next
  assume "INCIDENT_ID_PATTERN_test (incidentId incident)"
  then show "storeIds (step st (Message now' (Parsed (AddIncident incident))))
      = incidentId incident # storeIds st"
    by (simp add: add_ids del: onMessage.simps)
qed

theorem ids_distinct_while_adds_fresh_witness:
  "addsFresh seeded freshEvents
   \<and> distinct (storeIds (run seeded freshEvents))
   \<and> distinct (storeIds seeded)
   \<and> distinct (storeIds (step seeded (Message t0 (Parsed (UpdateIncident freshIncident)))))
   \<and> INCIDENT_ID_PATTERN_test (incidentId freshIncident)
   \<and> storeIds (step seeded (Message t0 (Parsed (AddIncident freshIncident))))
       = incidentId freshIncident # storeIds seeded"
proof -
  have p: "INCIDENT_ID_PATTERN_test (incidentId freshIncident)"
    using pattern_test_incident by (simp add: freshIncident_def buildIncident_def)
  have d: "distinct (storeIds seeded)" by (simp add: seeded_def startup_ids)
  have f: "addsFresh seeded freshEvents" using freshEvents_fresh by (simp add: seeded_def)
  from ids_distinct_while_adds_fresh
         [of sampleAgo t0 zeroDraws freshEvents seeded t0 freshIncident] f p d
  have "distinct (storeIds (run seeded (take (length freshEvents) freshEvents)))"
    and "distinct (storeIds (step seeded (Message t0 (Parsed (UpdateIncident freshIncident)))))"
    and "storeIds (step seeded (Message t0 (Parsed (AddIncident freshIncident))))
       = incidentId freshIncident # storeIds seeded"
    unfolding seeded_def [symmetric] by blast+
  with f p d show ?thesis by simp
qed

text \<open>
  C1 as stated fails: on the seeded store, one valid \<open>addIncident\<close> with the id \<open>inc-1001\<close>
  leaves two incidents with that id.
\<close>

theorem add_existing_id_duplicates:
  "\<not> distinct (storeIds (run seeded [Message t0 (Parsed (AddIncident duplicateIncident))]))"
proof -
  have "storeIds (run seeded [Message t0 (Parsed (AddIncident duplicateIncident))])
      = ''inc-1001'' # storeIds seeded"
    using add_ids [of duplicateIncident t0 seeded] pattern_inc_1001
    by (simp add: run_def duplicateIncident_def buildIncident_def del: onMessage.simps)
  then show ?thesis by (simp add: seeded_def startup_ids)
qed

subsection \<open>Length of the reading history\<close>

lemma sliceLast_length: "length (sliceLast n xs) \<le> n"
  by (simp add: sliceLast_def)

lemma advanceReadings_bounded:
  "list_all (\<lambda>incident. length (readingsOf incident) \<le> MAX_READINGS) (fst (advanceReadings now xs g))"
  by (induction xs arbitrary: g)
     (simp_all add: Let_def case_prod_beta readingsOf_def sliceLast_length)

lemma tick_bounded: "historyBounded (fst (tick now st))"
  using advanceReadings_bounded [of now "serverIncidents st" "random st"]
  by (simp add: historyBounded_def tick_def case_prod_beta)

lemma advanceReadings_length: "length (fst (advanceReadings now xs g)) = length xs"
  by (induction xs arbitrary: g) (simp_all add: Let_def case_prod_beta)

lemma drawsBefore_Suc: "drawsBefore (x # xs) (Suc j) = drawsUsed x + drawsBefore xs j"
  by (simp add: drawsBefore_def)

lemma createReading_rest_used:
  "snd (createReading now (lastReading (readingsOf x)) g) = (\<lambda>n. g (n + drawsUsed x))"
  by (simp add: createReading_rest drawsUsed_def lastReading_def)

lemma advanceReadings_nth:
  "i < length xs \<Longrightarrow>
   fst (advanceReadings now xs g) ! i =
     (xs ! i)\<lparr>readings := Some (sliceLast MAX_READINGS
        (readingsOf (xs ! i)
         @ [fst (createReading now (lastReading (readingsOf (xs ! i)))
                  (\<lambda>n. g (n + drawsBefore xs i)))]))\<rparr>"
proof (induction xs arbitrary: g i)
  case Nil
  then show ?case by simp
next
  case (Cons x xs)
  show ?case
  proof (cases i)
    case 0
    then show ?thesis by (simp add: Let_def case_prod_beta drawsBefore_def)
  next
    case (Suc j)
    with Cons.prems have j: "j < length xs" by simp
    have "(\<lambda>n. snd (createReading now (lastReading (readingsOf x)) g) (n + drawsBefore xs j))
        = (\<lambda>n. g (n + drawsBefore (x # xs) (Suc j)))"
      by (simp add: createReading_rest_used drawsBefore_Suc ac_simps)
    with Cons.IH [OF j, of "snd (createReading now (lastReading (readingsOf x)) g)"] Suc
    show ?thesis by (simp add: Let_def case_prod_beta)
  qed
qed

lemma seedLoop_length: "length (fst (seedLoop k now rs g)) = length rs + k"
  by (induction k arbitrary: rs g) (simp_all add: Let_def case_prod_beta)

lemma seedReadings_bounded:
  "list_all (\<lambda>incident. length (readingsOf incident) \<le> MAX_READINGS) (fst (seedReadings now xs g))"
  by (induction xs arbitrary: g)
     (simp_all add: Let_def case_prod_beta readingsOf_def seedLoop_length)

lemma startup_bounded: "historyBounded (startup ago now g)"
  using seedReadings_bounded [of now "seedIncidents ago" g]
  by (simp add: historyBounded_def startup_def case_prod_beta)

lemma list_all_update: "list_all P xs \<Longrightarrow> P x \<Longrightarrow> list_all P (xs[i := x])"
  by (induction xs arbitrary: i) (auto split: nat.splits)

lemma step_bounded:
  assumes "historyBounded st" and "carriesBounded ev"
  shows "historyBounded (step st ev)"
proof (cases ev)
  case (Tick now)
  then show ?thesis by (simp add: tick_bounded)
next
  case (Message now fr)
  show ?thesis
  proof (cases fr)
    case NotJson
    with Message assms show ?thesis by simp
  next
    case SchemaMismatch
    with Message assms show ?thesis by simp
  next
    case (Parsed m)
    show ?thesis
    proof (cases m)
      case (AddIncident incident)
      with assms Message Parsed show ?thesis
        by (auto simp: historyBounded_def Let_def case_prod_beta readingsOf_def MAX_READINGS_def)
    next
      case (UpdateIncident incident)
      with assms Message Parsed show ?thesis
        by (auto simp: historyBounded_def list_all_update split: option.splits)
    next
      case (SetReadingInterval ms)
      with assms Message Parsed show ?thesis by (simp add: historyBounded_def Let_def)
    qed
  qed
qed

lemma run_bounded:
  "historyBounded st \<Longrightarrow> list_all carriesBounded evs \<Longrightarrow> historyBounded (run st evs)"
  unfolding run_def
  by (induction evs arbitrary: st) (simp_all add: step_bounded)

lemma list_all_take: "list_all P xs \<Longrightarrow> list_all P (take k xs)"
  by (auto simp: list_all_iff dest: in_set_takeD)

lemma update_member:
  "incident \<in> set (serverIncidents (fst (onMessage now st (Parsed (UpdateIncident incident)))))"
proof (cases "findIndex (\<lambda>item. incidentId item = incidentId incident) (serverIncidents st)")
  case None
  then show ?thesis by simp
next
  case (Some i)
  from findIndex_Some [OF this] have "i < length (serverIncidents st)" by simp
  with Some show ?thesis by (simp add: set_update_memI)
qed

lemma seedReadings_full:
  "list_all (\<lambda>incident. length (readingsOf incident) = MAX_READINGS) (fst (seedReadings now xs g))"
  by (induction xs arbitrary: g)
     (simp_all add: Let_def case_prod_beta readingsOf_def seedLoop_length)

lemma startup_full:
  "list_all (\<lambda>incident. length (readingsOf incident) = 24) (serverIncidents (startup ago now g))"
  using seedReadings_full [of now "seedIncidents ago" g]
  by (simp add: startup_def case_prod_beta MAX_READINGS_def)

lemma findIndex_first:
  "i < length xs \<Longrightarrow> P (xs ! i) \<Longrightarrow> (\<forall>j<i. \<not> P (xs ! j)) \<Longrightarrow> findIndex P xs = Some i"
proof (induction xs arbitrary: i)
  case Nil
  then show ?case by simp
next
  case (Cons x xs)
  show ?case
  proof (cases i)
    case 0
    with Cons.prems show ?thesis by simp
  next
    case (Suc k)
    with Cons.prems have "k < length xs" "P (xs ! k)" "\<forall>j<k. \<not> P (xs ! j)" "\<not> P x"
      by auto
    with Cons.IH [of k] Suc show ?thesis by simp
  qed
qed

lemma findIndex_absent: "(\<forall>x\<in>set xs. \<not> P x) \<Longrightarrow> findIndex P xs = None"
  by (induction xs) simp_all

lemma add_stores_carried:
  assumes "INCIDENT_ID_PATTERN_test (incidentId incident)" and "readingsOf incident \<noteq> []"
  shows "serverIncidents (fst (onMessage now st (Parsed (AddIncident incident))))
           = incident # serverIncidents st"
  using assms by (auto simp: readingsOf_def split: option.splits)

lemma add_seeds_one:
  assumes "INCIDENT_ID_PATTERN_test (incidentId incident)" and "readingsOf incident = []"
  shows "serverIncidents (fst (onMessage now st (Parsed (AddIncident incident))))
           = incident\<lparr>readings := Some [fst (createReading now None (random st))]\<rparr> # serverIncidents st"
  using assms
  by (auto simp: readingsOf_def lastReading_def Let_def case_prod_beta split: option.splits)

lemma update_prepends:
  assumes "incidentId incident \<notin> incidentId ` set (serverIncidents st)"
  shows "serverIncidents (fst (onMessage now st (Parsed (UpdateIncident incident))))
           = incident # serverIncidents st"
proof -
  have "findIndex (\<lambda>item. incidentId item = incidentId incident) (serverIncidents st) = None"
    using assms by (intro findIndex_absent) (metis imageI)
  then show ?thesis by simp
qed

lemma update_replaces:
  assumes "i < length (serverIncidents st)"
    and "incidentId (serverIncidents st ! i) = incidentId incident"
    and "\<forall>j<i. incidentId (serverIncidents st ! j) \<noteq> incidentId incident"
  shows "serverIncidents (fst (onMessage now st (Parsed (UpdateIncident incident))))
           = (serverIncidents st)[i := incident]"
proof -
  have "findIndex (\<lambda>item. incidentId item = incidentId incident) (serverIncidents st) = Some i"
    using assms by (intro findIndex_first) simp_all
  then show ?thesis by simp
qed

text \<open>
  C2, as the code has it. The seeded incidents hold 24 readings each. After a tick every
  incident of the store holds at most 24 readings, whatever it held before; the tick
  keeps the list of incidents in place and gives each one its former readings followed
  by one new reading, with all but the last 24 dropped from the front; the new reading
  is the one the generator makes from the last of the former readings (from none when
  there were none), with the random draws taken in the order of the list. A valid
  \<open>addIncident\<close> stores the incident at the head with the readings it carries, or with
  exactly one generated reading when it carries none; \<open>updateIncident\<close> stores the incident
  as carried, in place of the first incident with its id or at the head when there is
  none. So, from the seeded store, when every such message carries at most 24 readings,
  every incident holds at most 24 after any number of the events.
\<close>

theorem history_bounded_by_tick:
  "list_all (\<lambda>incident. length (readingsOf incident) = 24) (serverIncidents (startup ago now0 g))
   \<and> historyBounded (step st (Tick now))
   \<and> length (serverIncidents (step st (Tick now))) = length (serverIncidents st)
   \<and> (\<forall>i<length (serverIncidents st).
        serverIncidents (step st (Tick now)) ! i =
          (serverIncidents st ! i)\<lparr>readings := Some
             (drop (Suc (length (readingsOf (serverIncidents st ! i))) - 24)
                (readingsOf (serverIncidents st ! i)
                 @ [fst (createReading now
                          (if readingsOf (serverIncidents st ! i) = [] then None
                           else Some (last (readingsOf (serverIncidents st ! i))))
                          (\<lambda>n. random st (n + drawsBefore (serverIncidents st) i)))]))\<rparr>)
   \<and> (INCIDENT_ID_PATTERN_test (incidentId incident) \<and> readingsOf incident \<noteq> []
        \<longrightarrow> serverIncidents (step st (Message now (Parsed (AddIncident incident))))
              = incident # serverIncidents st)
   \<and> (INCIDENT_ID_PATTERN_test (incidentId incident) \<and> readingsOf incident = []
        \<longrightarrow> serverIncidents (step st (Message now (Parsed (AddIncident incident))))
              = incident\<lparr>readings := Some [fst (createReading now None (random st))]\<rparr>
                # serverIncidents st)
   \<and> (incidentId incident \<notin> incidentId ` set (serverIncidents st)
        \<longrightarrow> serverIncidents (step st (Message now (Parsed (UpdateIncident incident))))
              = incident # serverIncidents st)
   \<and> (\<forall>i<length (serverIncidents st).
        incidentId (serverIncidents st ! i) = incidentId incident
        \<and> (\<forall>j<i. incidentId (serverIncidents st ! j) \<noteq> incidentId incident)
        \<longrightarrow> serverIncidents (step st (Message now (Parsed (UpdateIncident incident))))
              = (serverIncidents st)[i := incident])
   \<and> (list_all carriesBounded evs
        \<longrightarrow> (\<forall>k\<le>length evs. historyBounded (run (startup ago now0 g) (take k evs))))"
proof (intro conjI allI impI)
  show "list_all (\<lambda>incident. length (readingsOf incident) = 24) (serverIncidents (startup ago now0 g))"
    by (rule startup_full)
  show "historyBounded (step st (Tick now))" by (simp add: tick_bounded)
  show "length (serverIncidents (step st (Tick now))) = length (serverIncidents st)"
    by (simp add: tick_def case_prod_beta advanceReadings_length)
next
  fix i
  assume "i < length (serverIncidents st)"
  from advanceReadings_nth [OF this, of now "random st"]
  show "serverIncidents (step st (Tick now)) ! i =
          (serverIncidents st ! i)\<lparr>readings := Some
             (drop (Suc (length (readingsOf (serverIncidents st ! i))) - 24)
                (readingsOf (serverIncidents st ! i)
                 @ [fst (createReading now
                          (if readingsOf (serverIncidents st ! i) = [] then None
                           else Some (last (readingsOf (serverIncidents st ! i))))
                          (\<lambda>n. random st (n + drawsBefore (serverIncidents st) i)))]))\<rparr>"
    by (simp add: tick_def case_prod_beta sliceLast_def lastReading_def MAX_READINGS_def)
next
  assume "INCIDENT_ID_PATTERN_test (incidentId incident) \<and> readingsOf incident \<noteq> []"
  then show "serverIncidents (step st (Message now (Parsed (AddIncident incident))))
              = incident # serverIncidents st"
    using add_stores_carried [of incident now st] by (simp del: onMessage.simps)
next
  assume "INCIDENT_ID_PATTERN_test (incidentId incident) \<and> readingsOf incident = []"
  then show "serverIncidents (step st (Message now (Parsed (AddIncident incident))))
              = incident\<lparr>readings := Some [fst (createReading now None (random st))]\<rparr>
                # serverIncidents st"
    using add_seeds_one [of incident now st] by (simp del: onMessage.simps)
next
  assume "incidentId incident \<notin> incidentId ` set (serverIncidents st)"
  then show "serverIncidents (step st (Message now (Parsed (UpdateIncident incident))))
              = incident # serverIncidents st"
    using update_prepends [of incident st now] by (simp del: onMessage.simps)
next
  fix i
  assume "i < length (serverIncidents st)"
    and "incidentId (serverIncidents st ! i) = incidentId incident
         \<and> (\<forall>j<i. incidentId (serverIncidents st ! j) \<noteq> incidentId incident)"
  then show "serverIncidents (step st (Message now (Parsed (UpdateIncident incident))))
              = (serverIncidents st)[i := incident]"
    using update_replaces [of i st incident now] by (simp del: onMessage.simps)
next
  fix k
  assume "list_all carriesBounded evs"
  then have "list_all carriesBounded (take k evs)" by (rule list_all_take)
  with startup_bounded show "historyBounded (run (startup ago now0 g) (take k evs))"
    by (rule run_bounded)
qed

lemma seeded_nth_ids:
  "length (serverIncidents seeded) = 4"
  "incidentId (serverIncidents seeded ! 0) = ''inc-1001''"
  "incidentId (serverIncidents seeded ! 1) = ''inc-1002''"
proof -
  have ids: "map incidentId (serverIncidents seeded) = [''inc-1001'', ''inc-1002'', ''inc-1003'', ''inc-1004'']"
    using startup_ids [of sampleAgo t0 zeroDraws] by (simp add: seeded_def storeIds_def)
  from arg_cong [OF ids, of length] show len: "length (serverIncidents seeded) = 4" by simp
  have "map incidentId (serverIncidents seeded) ! 0 = ''inc-1001''" by (simp add: ids)
  then show "incidentId (serverIncidents seeded ! 0) = ''inc-1001''" using len by simp
  have "map incidentId (serverIncidents seeded) ! 1 = ''inc-1002''" by (simp add: ids)
  then show "incidentId (serverIncidents seeded ! 1) = ''inc-1002''" using len by simp
qed

theorem history_bounded_by_tick_witness:
  "0 < length (serverIncidents seeded)
   \<and> serverIncidents (step seeded (Tick t0)) ! 0 =
          (serverIncidents seeded ! 0)\<lparr>readings := Some
             (drop (Suc (length (readingsOf (serverIncidents seeded ! 0))) - 24)
                (readingsOf (serverIncidents seeded ! 0)
                 @ [fst (createReading t0
                          (if readingsOf (serverIncidents seeded ! 0) = [] then None
                           else Some (last (readingsOf (serverIncidents seeded ! 0))))
                          (\<lambda>n. random seeded (n + drawsBefore (serverIncidents seeded) 0)))]))\<rparr>
   \<and> INCIDENT_ID_PATTERN_test (incidentId carryingIncident) \<and> readingsOf carryingIncident \<noteq> []
   \<and> serverIncidents (step seeded (Message t0 (Parsed (AddIncident carryingIncident))))
        = carryingIncident # serverIncidents seeded
   \<and> INCIDENT_ID_PATTERN_test (incidentId freshIncident) \<and> readingsOf freshIncident = []
   \<and> serverIncidents (step seeded (Message t0 (Parsed (AddIncident freshIncident))))
        = freshIncident\<lparr>readings := Some [fst (createReading t0 None (random seeded))]\<rparr>
          # serverIncidents seeded
   \<and> incidentId carryingIncident \<notin> incidentId ` set (serverIncidents seeded)
   \<and> serverIncidents (step seeded (Message t0 (Parsed (UpdateIncident carryingIncident))))
        = carryingIncident # serverIncidents seeded
   \<and> 1 < length (serverIncidents seeded)
   \<and> incidentId (serverIncidents seeded ! 1) = incidentId replacingIncident
   \<and> serverIncidents (step seeded (Message t0 (Parsed (UpdateIncident replacingIncident))))
        = (serverIncidents seeded)[1 := replacingIncident]
   \<and> list_all carriesBounded boundedEvents
   \<and> historyBounded (run seeded boundedEvents)"
proof -
  note T = history_bounded_by_tick
  have ids: "incidentId ` set (serverIncidents seeded) = set [''inc-1001'', ''inc-1002'', ''inc-1003'', ''inc-1004'']"
    using startup_ids [of sampleAgo t0 zeroDraws] by (simp add: seeded_def storeIds_def flip: set_map)
  have n0: "0 < length (serverIncidents seeded)" and n1: "1 < length (serverIncidents seeded)"
    by (simp_all add: seeded_nth_ids)
  have pc: "INCIDENT_ID_PATTERN_test (incidentId carryingIncident) \<and> readingsOf carryingIncident \<noteq> []"
    by (simp add: carryingIncident_def buildIncident_def readingsOf_def INCIDENT_ID_PATTERN_test_def idChar_def)
  have pf: "INCIDENT_ID_PATTERN_test (incidentId freshIncident) \<and> readingsOf freshIncident = []"
    by (simp add: freshIncident_def buildIncident_def readingsOf_def INCIDENT_ID_PATTERN_test_def idChar_def)
  have ac: "incidentId carryingIncident \<notin> incidentId ` set (serverIncidents seeded)"
    by (simp add: ids carryingIncident_def buildIncident_def)
  have r1: "incidentId (serverIncidents seeded ! 1) = incidentId replacingIncident
            \<and> (\<forall>j<1. incidentId (serverIncidents seeded ! j) \<noteq> incidentId replacingIncident)"
    using seeded_nth_ids(2,3) by (simp add: replacingIncident_def buildIncident_def)
  have c: "list_all carriesBounded boundedEvents"
    by (simp add: boundedEvents_def freshIncident_def buildIncident_def readingsOf_def)
  have k: "length boundedEvents \<le> length boundedEvents" by simp
  from T [of sampleAgo t0 zeroDraws seeded t0 carryingIncident boundedEvents] n0 pc ac c k
  have w1: "serverIncidents (step seeded (Tick t0)) ! 0 =
          (serverIncidents seeded ! 0)\<lparr>readings := Some
             (drop (Suc (length (readingsOf (serverIncidents seeded ! 0))) - 24)
                (readingsOf (serverIncidents seeded ! 0)
                 @ [fst (createReading t0
                          (if readingsOf (serverIncidents seeded ! 0) = [] then None
                           else Some (last (readingsOf (serverIncidents seeded ! 0))))
                          (\<lambda>n. random seeded (n + drawsBefore (serverIncidents seeded) 0)))]))\<rparr>"
    and w2: "serverIncidents (step seeded (Message t0 (Parsed (AddIncident carryingIncident))))
        = carryingIncident # serverIncidents seeded"
    and w3: "serverIncidents (step seeded (Message t0 (Parsed (UpdateIncident carryingIncident))))
        = carryingIncident # serverIncidents seeded"
    and w4: "historyBounded (run seeded boundedEvents)"
    unfolding seeded_def [symmetric] by (blast, blast, blast, metis take_all_iff)
  from T [of sampleAgo t0 zeroDraws seeded t0 freshIncident boundedEvents] pf
  have w5: "serverIncidents (step seeded (Message t0 (Parsed (AddIncident freshIncident))))
        = freshIncident\<lparr>readings := Some [fst (createReading t0 None (random seeded))]\<rparr>
          # serverIncidents seeded"
    by blast
  from T [of sampleAgo t0 zeroDraws seeded t0 replacingIncident boundedEvents] n1 r1
  have w6: "serverIncidents (step seeded (Message t0 (Parsed (UpdateIncident replacingIncident))))
        = (serverIncidents seeded)[1 := replacingIncident]"
    by blast
  from n0 n1 pc pf ac r1 c w1 w2 w3 w4 w5 w6 show ?thesis by blast
qed

text \<open>
  C2 as stated fails: on the seeded store, one \<open>updateIncident\<close> for \<open>inc-1001\<close> that carries 25
  readings leaves an incident with 25 readings in the store.
\<close>

theorem update_stores_long_history:
  "\<not> historyBounded (run seeded [Message t0 (Parsed (UpdateIncident longIncident))])"
proof -
  have "longIncident \<in> set (serverIncidents (run seeded [Message t0 (Parsed (UpdateIncident longIncident))]))"
    using update_member [of longIncident t0 seeded] by (simp add: run_def del: onMessage.simps)
  moreover have "\<not> length (readingsOf longIncident) \<le> MAX_READINGS"
    by (simp add: longIncident_def readingsOf_def MAX_READINGS_def)
  ultimately show ?thesis by (auto simp: historyBounded_def list_all_iff)
qed

end
